theory Spec2Isabelle
  imports Complex_Main
begin

section \<open>Amounts\<close>

text \<open>
  The program carries money as JavaScript numbers. They are modelled here as exact
  rationals (\<^typ>\<open>rat\<close>): every finite double is a rational, and the comparisons, sums
  and differences of the source are the exact ones. Binary rounding error, \<open>NaN\<close>
  and the infinities are outside the model.

  \<open>Math.round(x)\<close> rounds to the nearest integer, a half upwards; the source always
  uses it in the shape \<open>Math.round(x * 100) / 100\<close>.
\<close>

definition Math_round :: "rat \<Rightarrow> int" where
  "Math_round x = \<lfloor>x + 1 / 2\<rfloor>"

definition round2 :: "rat \<Rightarrow> rat" where
  "round2 x = of_int (Math_round (x * 100)) / 100"

text \<open>An amount is a whole number of paise when a hundred times it is an integer.\<close>

definition paise :: "rat \<Rightarrow> bool" where
  "paise x = (of_int \<lfloor>x * 100\<rfloor> = x * 100)"

section \<open>Records of the data model (types.ts)\<close>

text \<open>
  Only the fields that the modelled functions read are kept; identifiers, dates,
  descriptions and categories are never consulted by the balance code. An optional
  field (\<open>splits?\<close>, \<open>user?\<close>, \<open>from_user_name?\<close>) is an \<^typ>\<open>'a option\<close>.
\<close>

record User =
  name :: string

record GroupMember =
  group_id :: string
  user_id :: string
  user :: "User option"

record ExpenseSplit =
  expense_id :: string
  user_id :: string
  share_amount :: rat

record Expense =
  group_id :: string
  amount :: rat
  paid_by :: string
  splits :: "ExpenseSplit list option"

record UserBalance =
  group_id :: string
  from_user :: string
  to_user :: string
  owes :: rat
  from_user_name :: "string option"
  to_user_name :: "string option"

record SimplifiedBalance =
  user_id :: string
  user_name :: string
  net_amount :: rat

record DebtFlow =
  "from" :: string
  to :: string
  amount :: rat
  fromName :: "string option"
  toName :: "string option"

section \<open>JavaScript maps\<close>

text \<open>
  A \<open>Map<string, V>\<close> iterates in insertion order, and \<open>set\<close> on a key that is
  present replaces the value where the key already is. It is modelled as an association
  list with that discipline; \<open>get\<close> is \<^const>\<open>map_of\<close>.
\<close>

type_synonym 'v jsmap = "(string \<times> 'v) list"

fun mapSet :: "'v jsmap \<Rightarrow> string \<Rightarrow> 'v \<Rightarrow> 'v jsmap" where
  "mapSet [] k v = [(k, v)]"
| "mapSet ((k', v') # m) k v = (if k' = k then (k, v) # m else (k', v') # mapSet m k v)"

definition mapHas :: "'v jsmap \<Rightarrow> string \<Rightarrow> bool" where
  "mapHas m k = (case map_of m k of None \<Rightarrow> False | Some v \<Rightarrow> True)"

text \<open>\<open>balanceMap.get(key) || 0\<close>: an absent key reads as 0.\<close>

definition getOr0 :: "rat jsmap \<Rightarrow> string \<Rightarrow> rat" where
  "getOr0 m k = (case map_of m k of None \<Rightarrow> 0 | Some v \<Rightarrow> v)"

section \<open>getGroupBalances (the Firestore database service)\<close>

text \<open>
  The key of the pair map is the template string \<open>`${from}:${to}`\<close>; the conversion
  loop recovers the two members with \<open>key.split(':')\<close> and keeps the first two pieces.
  Every key of the map holds a colon, so the second piece always exists; for a string
  without colon (where JavaScript would give \<open>undefined\<close>) \<open>splitKey\<close> gives the empty
  string.
\<close>

definition mkKey :: "string \<Rightarrow> string \<Rightarrow> string" where
  "mkKey fromUser toUser = fromUser @ '':'' @ toUser"

definition splitKey :: "string \<Rightarrow> string \<times> string" where
  "splitKey key =
     (takeWhile (\<lambda>c. c \<noteq> CHR '':'') key,
      takeWhile (\<lambda>c. c \<noteq> CHR '':'') (drop 1 (dropWhile (\<lambda>c. c \<noteq> CHR '':'') key)))"

text \<open>
  The netting of one amount that \<open>fromUser\<close> owes \<open>toUser\<close> into the pair map: it is
  first set against what \<open>toUser\<close> owes \<open>fromUser\<close> (the reverse key).
\<close>

definition netObligation :: "rat jsmap \<Rightarrow> string \<Rightarrow> string \<Rightarrow> rat \<Rightarrow> rat jsmap" where
  "netObligation balanceMap fromUser toUser netAmount =
     (let key = mkKey fromUser toUser;
          reverseKey = mkKey toUser fromUser;
          currentOwed = getOr0 balanceMap key;
          currentOwedReverse = getOr0 balanceMap reverseKey
      in if currentOwedReverse > 0 then
           if currentOwedReverse \<ge> netAmount then
             mapSet balanceMap reverseKey (currentOwedReverse - netAmount)
           else
             mapSet (mapSet balanceMap reverseKey 0) key
                    (currentOwed + (netAmount - currentOwedReverse))
         else mapSet balanceMap key (currentOwed + netAmount))"

text \<open>
  The body of the inner loop, for one split of an expense paid by \<open>paidBy\<close>: the
  payer's own split is skipped (\<open>continue\<close>), any other is netted.
\<close>

definition netSplit :: "string \<Rightarrow> rat jsmap \<Rightarrow> ExpenseSplit \<Rightarrow> rat jsmap" where
  "netSplit paidBy balanceMap s =
     (if ExpenseSplit.user_id s = paidBy then balanceMap
      else netObligation balanceMap (ExpenseSplit.user_id s) paidBy (share_amount s))"

fun processSplits :: "string \<Rightarrow> rat jsmap \<Rightarrow> ExpenseSplit list \<Rightarrow> rat jsmap" where
  "processSplits paidBy balanceMap [] = balanceMap"
| "processSplits paidBy balanceMap (s # ss) = processSplits paidBy (netSplit paidBy balanceMap s) ss"

fun processExpenses :: "rat jsmap \<Rightarrow> Expense list \<Rightarrow> rat jsmap" where
  "processExpenses balanceMap [] = balanceMap"
| "processExpenses balanceMap (expense # expenses) =
     (case splits expense of
        None \<Rightarrow> processExpenses balanceMap expenses
      | Some ss \<Rightarrow> processExpenses (processSplits (paid_by expense) balanceMap ss) expenses)"

text \<open>\<open>m.user?.name || 'Unknown'\<close>: an absent user or an empty name gives the default.\<close>

definition memberName :: "GroupMember \<Rightarrow> string" where
  "memberName m =
     (case user m of
        None \<Rightarrow> ''Unknown''
      | Some u \<Rightarrow> if name u = [] then ''Unknown'' else name u)"

fun memberMapOf :: "string jsmap \<Rightarrow> GroupMember list \<Rightarrow> string jsmap" where
  "memberMapOf memberMap [] = memberMap"
| "memberMapOf memberMap (m # ms) =
     memberMapOf (mapSet memberMap (GroupMember.user_id m) (memberName m)) ms"

fun toUserBalances :: "string \<Rightarrow> string jsmap \<Rightarrow> rat jsmap \<Rightarrow> UserBalance list" where
  "toUserBalances groupId memberMap [] = []"
| "toUserBalances groupId memberMap ((key, amt) # balanceMap) =
     (if amt > 1 / 100 then
        (case splitKey key of
           (fromUser, toUser) \<Rightarrow>
             \<lparr>UserBalance.group_id = groupId, from_user = fromUser, to_user = toUser,
              owes = round2 amt,
              from_user_name = map_of memberMap fromUser,
              to_user_name = map_of memberMap toUser\<rparr>
             # toUserBalances groupId memberMap balanceMap)
      else toUserBalances groupId memberMap balanceMap)"

text \<open>
  The two reads of the record source (\<open>getGroupExpenses\<close>, then \<open>getGroupMembers\<close>) are
  awaited first; a rejected read rejects the whole call. The reads are parameters of the
  model, each returning the records read or the error.
\<close>

datatype error = ReadFailed string

definition getGroupBalances ::
  "(string \<Rightarrow> error + Expense list) \<Rightarrow> (string \<Rightarrow> error + GroupMember list) \<Rightarrow> string
     \<Rightarrow> error + UserBalance list" where
  "getGroupBalances getGroupExpenses getGroupMembers groupId =
     (case getGroupExpenses groupId of
        Inl e \<Rightarrow> Inl e
      | Inr expenses \<Rightarrow>
          (case getGroupMembers groupId of
             Inl e \<Rightarrow> Inl e
           | Inr members \<Rightarrow>
               Inr (toUserBalances groupId (memberMapOf [] members)
                      (processExpenses [] expenses))))"

section \<open>simplifyBalances (utils/nlp-parser.ts)\<close>

text \<open>
  The map holds one object \<open>{name, amount}\<close> per member, modelled as a pair.
  \<open>balance.from_user_name || 'Unknown User'\<close> replaces an absent or empty name.
\<close>

definition nameOrUnknownUser :: "string option \<Rightarrow> string" where
  "nameOrUnknownUser n =
     (case n of None \<Rightarrow> ''Unknown User'' | Some s \<Rightarrow> if s = [] then ''Unknown User'' else s)"

definition initUser :: "(string \<times> rat) jsmap \<Rightarrow> string \<Rightarrow> string option \<Rightarrow> (string \<times> rat) jsmap" where
  "initUser balanceMap userId n =
     (if mapHas balanceMap userId then balanceMap
      else mapSet balanceMap userId (nameOrUnknownUser n, 0))"

text \<open>
  \<open>balanceMap.get(id)!.amount += d\<close> mutates the object stored under the key. The key
  is always present here, because \<open>initUser\<close> ran just before (lemma
  \<open>map_of_initUser_present\<close> below); the branch for an absent key is never taken.
\<close>

definition addAmount :: "(string \<times> rat) jsmap \<Rightarrow> string \<Rightarrow> rat \<Rightarrow> (string \<times> rat) jsmap" where
  "addAmount balanceMap userId d =
     (case map_of balanceMap userId of
        None \<Rightarrow> balanceMap
      | Some (n, a) \<Rightarrow> mapSet balanceMap userId (n, a + d))"

definition aggregate :: "(string \<times> rat) jsmap \<Rightarrow> UserBalance \<Rightarrow> (string \<times> rat) jsmap" where
  "aggregate balanceMap balance =
     (let fromUserId = from_user balance;
          toUserId = to_user balance;
          amt = owes balance;
          m1 = initUser balanceMap fromUserId (from_user_name balance);
          m2 = initUser m1 toUserId (to_user_name balance);
          m3 = addAmount m2 fromUserId (- amt)
      in addAmount m3 toUserId amt)"

definition toSimplified :: "string \<times> string \<times> rat \<Rightarrow> SimplifiedBalance" where
  "toSimplified entry =
     (case entry of
        (userId, n, a) \<Rightarrow>
          \<lparr>SimplifiedBalance.user_id = userId, user_name = n, net_amount = round2 a\<rparr>)"

definition simplifyBalances :: "UserBalance list \<Rightarrow> SimplifiedBalance list" where
  "simplifyBalances userBalances = map toSimplified (foldl aggregate [] userBalances)"

section \<open>calculateMinCashFlow (utils/nlp-parser.ts)\<close>

text \<open>
  The two scans start at index 0 and move to a later index only on a strictly larger
  (smaller) amount.
\<close>

definition maxCreditorIndex :: "SimplifiedBalance list \<Rightarrow> nat" where
  "maxCreditorIndex nonZeroBalances =
     foldl (\<lambda>best i. if net_amount (nonZeroBalances ! i) > net_amount (nonZeroBalances ! best)
                       then i else best)
           0 [1..<length nonZeroBalances]"

definition maxDebtorIndex :: "SimplifiedBalance list \<Rightarrow> nat" where
  "maxDebtorIndex nonZeroBalances =
     foldl (\<lambda>best i. if net_amount (nonZeroBalances ! i) < net_amount (nonZeroBalances ! best)
                       then i else best)
           0 [1..<length nonZeroBalances]"

text \<open>\<open>findIndex\<close> returns the first index that satisfies the test, \<open>-1\<close> (here \<open>None\<close>) if none.\<close>

fun findIndex :: "('a \<Rightarrow> bool) \<Rightarrow> 'a list \<Rightarrow> nat option" where
  "findIndex p [] = None"
| "findIndex p (x # xs) =
     (if p x then Some 0 else (case findIndex p xs of None \<Rightarrow> None | Some i \<Rightarrow> Some (Suc i)))"

text \<open>\<open>xs.splice(i, 1)\<close> removes the element at index \<open>i\<close>.\<close>

definition splice1 :: "nat \<Rightarrow> 'a list \<Rightarrow> 'a list" where
  "splice1 i xs = take i xs @ drop (Suc i) xs"

text \<open>
  One pass through the body of the \<open>while\<close> loop, which is entered only with at least
  two entries in the array. \<open>None\<close> is the \<open>break\<close>; otherwise the pushed transaction and
  the array after the two removals. The creditor and the debtor are objects held by the
  array, so the two assignments to \<open>net_amount\<close> are updates of the array at their
  indices. The source also decrements \<open>maxDebtorIndex\<close> after removing a creditor that
  stands before the debtor; the decremented index is never read again (the debtor is
  looked up by \<open>findIndex\<close>), so the model leaves it out.
\<close>

definition settleStep :: "SimplifiedBalance list \<Rightarrow> (DebtFlow \<times> SimplifiedBalance list) option" where
  "settleStep nonZeroBalances =
     (let ci = maxCreditorIndex nonZeroBalances;
          di = maxDebtorIndex nonZeroBalances;
          creditor = nonZeroBalances ! ci;
          debtor = nonZeroBalances ! di
      in if net_amount creditor \<le> 1 / 100 \<or> net_amount debtor \<ge> - (1 / 100) then None
         else
           let settlementAmount = min (net_amount creditor) \<bar>net_amount debtor\<bar>;
               transaction =
                 \<lparr>from = SimplifiedBalance.user_id debtor,
                  to = SimplifiedBalance.user_id creditor,
                  DebtFlow.amount = round2 settlementAmount,
                  fromName = Some (user_name debtor),
                  toName = Some (user_name creditor)\<rparr>;
               b1 = nonZeroBalances[ci := (nonZeroBalances ! ci)
                      \<lparr>net_amount := net_amount (nonZeroBalances ! ci) - settlementAmount\<rparr>];
               b2 = b1[di := (b1 ! di)\<lparr>net_amount := net_amount (b1 ! di) + settlementAmount\<rparr>];
               b3 = (if \<bar>net_amount (b2 ! ci)\<bar> \<le> 1 / 100 then splice1 ci b2 else b2);
               b4 = (if \<bar>net_amount (b2 ! di)\<bar> \<le> 1 / 100 \<and> length b3 > 0 then
                       (case findIndex (\<lambda>b. SimplifiedBalance.user_id b
                                               = SimplifiedBalance.user_id debtor) b3 of
                          None \<Rightarrow> b3
                        | Some currentDebtorIndex \<Rightarrow> splice1 currentDebtorIndex b3)
                     else b3)
           in Some (transaction, b4))"

text \<open>
  Facts about one pass that the termination of the loop rests on: both scans return an
  index of the array, and a pass that does not break removes at least one entry.
\<close>

lemma scan_first_extremum:
  fixes v :: "nat \<Rightarrow> rat"
  assumes "0 < n"
  shows "foldl (\<lambda>best i. if v i > v best then i else best) 0 [1..<n] < n
       \<and> (\<forall>j<n. v j \<le> v (foldl (\<lambda>best i. if v i > v best then i else best) 0 [1..<n]))
       \<and> (\<forall>j<foldl (\<lambda>best i. if v i > v best then i else best) 0 [1..<n].
              v j < v (foldl (\<lambda>best i. if v i > v best then i else best) 0 [1..<n]))"
  using assms
proof (induction n)
  case 0
  then show ?case by simp
next
  case (Suc n)
  show ?case
  proof (cases "n = 0")
    case True
    then show ?thesis by simp
  next
    case False
    then have pos: "0 < n" by simp
    define r where "r = foldl (\<lambda>best i. if v i > v best then i else best) 0 [1..<n]"
    from Suc.IH [OF pos] have r: "r < n" "\<forall>j<n. v j \<le> v r" "\<forall>j<r. v j < v r"
      unfolding r_def by blast+
    have step: "foldl (\<lambda>best i. if v i > v best then i else best) 0 [1..<Suc n]
                  = (if v n > v r then n else r)"
      using pos by (simp add: r_def)
    show ?thesis
      unfolding step using r
      by (auto simp: less_Suc_eq intro: less_imp_le order.strict_trans1 order.trans)
  qed
qed

lemma findIndex_first:
  assumes "\<exists>x\<in>set xs. p x"
  shows "\<exists>j. findIndex p xs = Some j \<and> j < length xs \<and> p (xs ! j) \<and> (\<forall>i<j. \<not> p (xs ! i))"
  using assms
proof (induction xs)
  case Nil
  then show ?case by simp
next
  case (Cons x xs)
  show ?case
  proof (cases "p x")
    case True
    then show ?thesis by simp
  next
    case False
    with Cons.prems have "\<exists>y\<in>set xs. p y" by auto
    from Cons.IH [OF this] obtain j where
      j: "findIndex p xs = Some j" "j < length xs" "p (xs ! j)" "\<forall>i<j. \<not> p (xs ! i)" by blast
    have "\<forall>i<Suc j. \<not> p ((x # xs) ! i)"
      using False j(4) by (auto simp: less_Suc_eq_0_disj)
    with False j show ?thesis by simp
  qed
qed

lemma length_splice1: "i < length xs \<Longrightarrow> length (splice1 i xs) = length xs - 1"
  by (simp add: splice1_def)

lemma length_splice1_le: "length (splice1 i xs) \<le> length xs"
  by (simp add: splice1_def)

lemma maxCreditorIndex_first:
  assumes "xs \<noteq> []"
  shows "maxCreditorIndex xs < length xs"
    and "\<forall>j<length xs. net_amount (xs ! j) \<le> net_amount (xs ! maxCreditorIndex xs)"
    and "\<forall>j<maxCreditorIndex xs. net_amount (xs ! j) < net_amount (xs ! maxCreditorIndex xs)"
  using scan_first_extremum [of "length xs" "\<lambda>i. net_amount (xs ! i)"] assms
  unfolding maxCreditorIndex_def by simp_all

lemma maxDebtorIndex_first:
  assumes "xs \<noteq> []"
  shows "maxDebtorIndex xs < length xs"
    and "\<forall>j<length xs. net_amount (xs ! maxDebtorIndex xs) \<le> net_amount (xs ! j)"
    and "\<forall>j<maxDebtorIndex xs. net_amount (xs ! maxDebtorIndex xs) < net_amount (xs ! j)"
  using scan_first_extremum [of "length xs" "\<lambda>i. - net_amount (xs ! i)"] assms
  unfolding maxDebtorIndex_def by simp_all

lemma settleStep_shrinks:
  assumes ne: "xs \<noteq> []" and st: "settleStep xs = Some (t, xs')"
  shows "length xs' < length xs"
proof -
  define ci where "ci = maxCreditorIndex xs"
  define di where "di = maxDebtorIndex xs"
  define c where "c = net_amount (xs ! ci)"
  define d where "d = net_amount (xs ! di)"
  define s where "s = min c \<bar>d\<bar>"
  define b1 where "b1 = xs[ci := (xs ! ci)\<lparr>net_amount := c - s\<rparr>]"
  define b2 where "b2 = b1[di := (b1 ! di)\<lparr>net_amount := net_amount (b1 ! di) + s\<rparr>]"
  define b3 where "b3 = (if \<bar>net_amount (b2 ! ci)\<bar> \<le> 1 / 100 then splice1 ci b2 else b2)"
  have ci: "ci < length xs" and di: "di < length xs"
    using maxCreditorIndex_first(1) [OF ne] maxDebtorIndex_first(1) [OF ne]
    by (simp_all add: ci_def di_def)
  from st have nb: "\<not> (c \<le> 1 / 100 \<or> d \<ge> - (1 / 100))"
    unfolding settleStep_def Let_def c_def d_def ci_def di_def
    by (auto split: if_splits)
  then have cd: "c > 1 / 100" "d < - (1 / 100)" by auto
  then have neq: "ci \<noteq> di" unfolding c_def d_def by auto
  from st nb have xs': "xs' = (if \<bar>net_amount (b2 ! di)\<bar> \<le> 1 / 100 \<and> length b3 > 0 then
                       (case findIndex (\<lambda>b. SimplifiedBalance.user_id b
                                               = SimplifiedBalance.user_id (xs ! di)) b3 of
                          None \<Rightarrow> b3
                        | Some j \<Rightarrow> splice1 j b3)
                     else b3)"
    unfolding settleStep_def Let_def b3_def b2_def b1_def s_def c_def d_def ci_def di_def
    by (auto split: if_splits)
  have len2: "length b2 = length xs" by (simp add: b2_def b1_def)
  have nci: "net_amount (b2 ! ci) = c - s"
    using ci di neq by (simp add: b2_def b1_def)
  have ndi: "net_amount (b2 ! di) = d + s"
    using ci di neq by (simp add: b2_def b1_def d_def)
  have idi: "SimplifiedBalance.user_id (b2 ! di) = SimplifiedBalance.user_id (xs ! di)"
    using ci di neq by (simp add: b2_def b1_def)
  have le3: "length b3 \<le> length xs"
    using len2 length_splice1_le [of ci b2] by (simp add: b3_def)
  have le': "length xs' \<le> length b3"
    unfolding xs' using length_splice1_le by (auto split: option.splits)
  show ?thesis
  proof (cases "\<bar>c - s\<bar> \<le> 1 / 100")
    case True
    then have "length b3 = length xs - 1"
      using ci len2 nci by (simp add: b3_def length_splice1)
    with le' ci show ?thesis by simp
  next
    case False
    then have b3: "b3 = b2" using nci by (simp add: b3_def)
    from False have "s \<noteq> c" by auto
    then have "s = \<bar>d\<bar>" unfolding s_def by (simp add: min_def split: if_splits)
    with cd have zero: "d + s = 0" by simp
    have "\<exists>x\<in>set b2. SimplifiedBalance.user_id x = SimplifiedBalance.user_id (xs ! di)"
      using idi di len2 by (metis nth_mem)
    from findIndex_first [OF this] obtain j where
      j: "findIndex (\<lambda>b. SimplifiedBalance.user_id b = SimplifiedBalance.user_id (xs ! di)) b2 = Some j"
         "j < length b2" by blast
    have "xs' = splice1 j b2"
      unfolding xs' b3 using ndi zero j(1) di len2 ne by simp
    then show ?thesis using j(2) len2 by (simp add: length_splice1)
  qed
qed

text \<open>
  The \<open>while\<close> loop, started with the transactions pushed so far and the array of
  balances still to settle. It returns the transactions and the array it stops with.
\<close>

function cashFlowLoop ::
  "DebtFlow list \<Rightarrow> SimplifiedBalance list \<Rightarrow> DebtFlow list \<times> SimplifiedBalance list" where
  "cashFlowLoop transactions nonZeroBalances =
     (if length nonZeroBalances > 1 then
        (case settleStep nonZeroBalances of
           None \<Rightarrow> (transactions, nonZeroBalances)
         | Some (transaction, rest) \<Rightarrow> cashFlowLoop (transactions @ [transaction]) rest)
      else (transactions, nonZeroBalances))"
  by pat_completeness auto
termination
proof (relation "measure (\<lambda>(transactions, nonZeroBalances). length nonZeroBalances)")
  show "wf (measure (\<lambda>(transactions, nonZeroBalances). length nonZeroBalances))"
    by simp
next
  fix transactions :: "DebtFlow list" and nonZeroBalances x2 transaction rest
  assume "1 < length nonZeroBalances" and "settleStep nonZeroBalances = Some x2"
    and "(transaction, rest) = x2"
  then have "length rest < length nonZeroBalances"
    using settleStep_shrinks [of nonZeroBalances transaction rest] by fastforce
  then show "((transactions @ [transaction], rest), (transactions, nonZeroBalances))
               \<in> measure (\<lambda>(transactions, nonZeroBalances). length nonZeroBalances)"
    by simp
qed

text \<open>The number of times the body of the loop is entered (a pass that breaks counts).\<close>

function cashFlowIterations :: "SimplifiedBalance list \<Rightarrow> nat" where
  "cashFlowIterations nonZeroBalances =
     (if length nonZeroBalances > 1 then
        (case settleStep nonZeroBalances of
           None \<Rightarrow> 1
         | Some (transaction, rest) \<Rightarrow> 1 + cashFlowIterations rest)
      else 0)"
  by pat_completeness auto
termination
proof (relation "measure length")
  show "wf (measure length)"
    by simp
next
  fix nonZeroBalances :: "SimplifiedBalance list" and x2 transaction rest
  assume "1 < length nonZeroBalances" and "settleStep nonZeroBalances = Some x2"
    and "(transaction, rest) = x2"
  then have "length rest < length nonZeroBalances"
    using settleStep_shrinks [of nonZeroBalances transaction rest] by fastforce
  then show "(rest, nonZeroBalances) \<in> measure length"
    by simp
qed

declare cashFlowLoop.simps [simp del] cashFlowIterations.simps [simp del]

definition nonZeroOf :: "SimplifiedBalance list \<Rightarrow> SimplifiedBalance list" where
  "nonZeroOf netBalances = filter (\<lambda>balance. \<bar>net_amount balance\<bar> > 1 / 100) netBalances"

definition calculateMinCashFlow :: "SimplifiedBalance list \<Rightarrow> DebtFlow list" where
  "calculateMinCashFlow balances =
     (if balances = [] then []
      else if nonZeroOf balances = [] then []
      else fst (cashFlowLoop [] (nonZeroOf balances)))"

text \<open>
  Applying a plan to a list of balances, in the words of the settlement-correctness
  property: each transaction's amount is subtracted from the balance of its payee (the
  creditor, \<open>to\<close>) and added to the balance of its payer (the debtor, \<open>from\<close>).
\<close>

definition applyTransaction :: "DebtFlow \<Rightarrow> SimplifiedBalance list \<Rightarrow> SimplifiedBalance list" where
  "applyTransaction t balances =
     map (\<lambda>b. b\<lparr>net_amount :=
                  net_amount b
                  - (if SimplifiedBalance.user_id b = to t then DebtFlow.amount t else 0)
                  + (if SimplifiedBalance.user_id b = from t then DebtFlow.amount t else 0)\<rparr>)
         balances"

definition applyTransactions :: "DebtFlow list \<Rightarrow> SimplifiedBalance list \<Rightarrow> SimplifiedBalance list" where
  "applyTransactions transactions balances =
     foldl (\<lambda>bs t. applyTransaction t bs) balances transactions"

section \<open>calculateSimplifiedBalances (pages/GroupDetail.tsx)\<close>

text \<open>
  The balances of the other members against the current user: every other member starts
  at 0, a row from the current user adds to the row's \<open>to_user\<close>, a row to the current
  user subtracts from the row's \<open>from_user\<close>; entries of at most 0.01 in absolute
  value are filtered out at the end.
\<close>

fun initOthers :: "rat jsmap \<Rightarrow> GroupMember list \<Rightarrow> string \<Rightarrow> rat jsmap" where
  "initOthers userBalances [] currentUserId = userBalances"
| "initOthers userBalances (m # ms) currentUserId =
     initOthers (if GroupMember.user_id m \<noteq> currentUserId
                 then mapSet userBalances (GroupMember.user_id m) 0 else userBalances)
                ms currentUserId"

definition addRawBalance :: "string \<Rightarrow> rat jsmap \<Rightarrow> UserBalance \<Rightarrow> rat jsmap" where
  "addRawBalance currentUserId userBalances balance =
     (if from_user balance = currentUserId then
        mapSet userBalances (to_user balance)
          (getOr0 userBalances (to_user balance) + owes balance)
      else if to_user balance = currentUserId then
        mapSet userBalances (from_user balance)
          (getOr0 userBalances (from_user balance) - owes balance)
      else userBalances)"

definition memberNameOf :: "GroupMember list \<Rightarrow> string \<Rightarrow> string" where
  "memberNameOf members userId =
     (case find (\<lambda>m. GroupMember.user_id m = userId) members of
        None \<Rightarrow> ''Unknown''
      | Some m \<Rightarrow> memberName m)"

definition calculateSimplifiedBalances ::
  "UserBalance list \<Rightarrow> GroupMember list \<Rightarrow> string \<Rightarrow> SimplifiedBalance list" where
  "calculateSimplifiedBalances rawBalances members currentUserId =
     filter (\<lambda>b. \<bar>net_amount b\<bar> > 1 / 100)
       (map (\<lambda>(userId, amt).
               \<lparr>SimplifiedBalance.user_id = userId,
                user_name = memberNameOf members userId,
                net_amount = amt\<rparr>)
            (foldl (addRawBalance currentUserId) (initOthers [] members currentUserId)
                   rawBalances))"

section \<open>validateCashFlow (utils/nlp-parser.ts)\<close>

definition validateCashFlow :: "SimplifiedBalance list \<Rightarrow> DebtFlow list \<Rightarrow> bool" where
  "validateCashFlow originalBalances transactions =
     (let originalTotal = foldl (\<lambda>sum balance. sum + net_amount balance) 0 originalBalances;
          transactionTotal =
            foldl (\<lambda>sum transaction.
                     sum + DebtFlow.amount transaction - DebtFlow.amount transaction)
                  0 transactions
      in \<bar>originalTotal\<bar> < 1 / 100 \<and> \<bar>transactionTotal\<bar> < 1 / 100)"

section \<open>The builder and direct accumulation, in the words of the specification\<close>

text \<open>
  The specification's Split Ledger Builder: one obligation for each split whose member is
  not the payer of its expense, from the split's member (the debtor) to the payer (the
  creditor), for the split's share. An expense that carries no list of splits has none.
\<close>

record PairwiseObligation =
  debtor :: string
  creditor :: string
  amount :: rat

definition obligationsOf :: "Expense \<Rightarrow> PairwiseObligation list" where
  "obligationsOf expense =
     (case splits expense of
        None \<Rightarrow> []
      | Some ss \<Rightarrow>
          map (\<lambda>s. \<lparr>debtor = ExpenseSplit.user_id s, creditor = paid_by expense,
                     PairwiseObligation.amount = share_amount s\<rparr>)
              (filter (\<lambda>s. ExpenseSplit.user_id s \<noteq> paid_by expense) ss))"

definition build :: "Expense list \<Rightarrow> PairwiseObligation list" where
  "build expenses = concat (map obligationsOf expenses)"

text \<open>
  Direct signed accumulation of raw obligations, without pairwise netting: every
  obligation is handed to \<open>simplifyBalances\<close> as a row of its own.
\<close>

definition obligationRow :: "string \<Rightarrow> PairwiseObligation \<Rightarrow> UserBalance" where
  "obligationRow groupId ob =
     \<lparr>UserBalance.group_id = groupId, from_user = debtor ob, to_user = creditor ob,
      owes = PairwiseObligation.amount ob, from_user_name = None, to_user_name = None\<rparr>"

text \<open>The net balance of a member in a list of balances; a member with no entry has 0.\<close>

definition netOf :: "SimplifiedBalance list \<Rightarrow> string \<Rightarrow> rat" where
  "netOf balances userId =
     (case find (\<lambda>b. SimplifiedBalance.user_id b = userId) balances of
        None \<Rightarrow> 0
      | Some b \<Rightarrow> net_amount b)"

section \<open>Notions used in the statements and proofs\<close>

text \<open>What a list of transactions pays to a member, less what it takes from that member.\<close>

definition netEffect :: "DebtFlow list \<Rightarrow> string \<Rightarrow> rat" where
  "netEffect transactions u =
     sum_list (map (\<lambda>t. (if u = from t then DebtFlow.amount t else 0)
                        - (if u = to t then DebtFlow.amount t else 0)) transactions)"

text \<open>The balances after every transaction of the plan has been applied to them.\<close>

definition afterPlan :: "SimplifiedBalance list \<Rightarrow> SimplifiedBalance list" where
  "afterPlan balances = applyTransactions (calculateMinCashFlow balances) balances"

text \<open>The sum of the amounts held in the map of \<open>simplifyBalances\<close>.\<close>

definition amountTotal :: "(string \<times> rat) jsmap \<Rightarrow> rat" where
  "amountTotal m = sum_list (map (\<lambda>e. snd (snd e)) m)"

text \<open>What a list of rows gives a member, less what it takes from that member.\<close>

definition signedTotal :: "UserBalance list \<Rightarrow> string \<Rightarrow> rat" where
  "signedTotal rows u =
     sum_list (map (\<lambda>r. (if to_user r = u then owes r else 0)
                        - (if from_user r = u then owes r else 0)) rows)"

definition amountOf :: "(string \<times> rat) jsmap \<Rightarrow> string \<Rightarrow> rat" where
  "amountOf m u = (case map_of m u of None \<Rightarrow> 0 | Some v \<Rightarrow> snd v)"

text \<open>A user id that does not contain the separator of the pair keys.\<close>

definition noColon :: "string \<Rightarrow> bool" where
  "noColon s = (CHR '':'' \<notin> set s)"

text \<open>
  The per-member total of a pair map: an entry counts for the second member of its key and
  against the first.
\<close>

definition coef :: "string \<Rightarrow> string \<Rightarrow> rat" where
  "coef u key = (if snd (splitKey key) = u then 1 else 0) - (if fst (splitKey key) = u then 1 else 0)"

definition pairTotal :: "rat jsmap \<Rightarrow> string \<Rightarrow> rat" where
  "pairTotal m u = sum_list (map (\<lambda>(k, v). coef u k * v) m)"

text \<open>An expense without the splits of its own payer.\<close>

definition withoutOwnSplits :: "Expense \<Rightarrow> Expense" where
  "withoutOwnSplits expense =
     expense\<lparr>splits :=
       map_option (filter (\<lambda>s. ExpenseSplit.user_id s \<noteq> paid_by expense)) (splits expense)\<rparr>"

section \<open>Properties of validateCashFlow\<close>

lemma foldl_add_sub_same:
  "foldl (\<lambda>sum t. sum + DebtFlow.amount t - DebtFlow.amount t) z ts = (z :: rat)"
  by (induction ts arbitrary: z) simp_all

lemma foldl_net_amount:
  "foldl (\<lambda>sum b. sum + net_amount b) z bs = z + sum_list (map net_amount bs)"
  by (induction bs arbitrary: z) simp_all

text \<open>
  Claim C10. The result of \<open>validateCashFlow\<close> does not depend on the transactions:
  the transaction total it folds is zero for every transaction list, so it returns
  true exactly when the absolute value of the sum of the original net amounts is
  below 0.01.
\<close>

theorem validateCashFlow_ignores_transactions:
  "validateCashFlow originalBalances transactions
     = (\<bar>sum_list (map net_amount originalBalances)\<bar> < 1 / 100)
   \<and> foldl (\<lambda>sum t. sum + DebtFlow.amount t - DebtFlow.amount t) 0 transactions = 0"
  unfolding validateCashFlow_def Let_def foldl_add_sub_same foldl_net_amount
  by simp

section \<open>Termination and length of the plan\<close>

lemma cashFlowIterations_bound: "cashFlowIterations nz \<le> length nz - 1"
proof (induction nz rule: cashFlowIterations.induct)
  case (1 nz)
  show ?case
  proof (cases "length nz > 1")
    case False
    then show ?thesis by (simp add: cashFlowIterations.simps [of nz])
  next
    case long: True
    show ?thesis
    proof (cases "settleStep nz")
      case None
      with long show ?thesis by (simp add: cashFlowIterations.simps [of nz])
    next
      case (Some p)
      obtain t rest where p: "p = (t, rest)" by (cases p)
      from long have ne: "nz \<noteq> []" by auto
      have shr: "length rest < length nz"
        using settleStep_shrinks [OF ne] Some p by simp
      have "cashFlowIterations rest \<le> length rest - 1"
        using "1.IH" [OF long Some p [symmetric]] .
      moreover have "cashFlowIterations nz = 1 + cashFlowIterations rest"
        using long Some p by (simp add: cashFlowIterations.simps [of nz])
      ultimately show ?thesis using shr long by linarith
    qed
  qed
qed

lemma cashFlowLoop_length:
  "length (fst (cashFlowLoop txs nz)) \<le> length txs + cashFlowIterations nz"
proof (induction txs nz rule: cashFlowLoop.induct)
  case (1 txs nz)
  show ?case
  proof (cases "length nz > 1")
    case False
    then show ?thesis
      by (simp add: cashFlowIterations.simps [of nz] cashFlowLoop.simps [of txs nz])
  next
    case long: True
    show ?thesis
    proof (cases "settleStep nz")
      case None
      with long show ?thesis
        by (simp add: cashFlowIterations.simps [of nz] cashFlowLoop.simps [of txs nz])
    next
      case (Some p)
      obtain t rest where p: "p = (t, rest)" by (cases p)
      have "length (fst (cashFlowLoop (txs @ [t]) rest))
              \<le> length (txs @ [t]) + cashFlowIterations rest"
        using "1.IH" [OF long Some p [symmetric]] .
      moreover have "cashFlowLoop txs nz = cashFlowLoop (txs @ [t]) rest"
        using long Some p by (simp add: cashFlowLoop.simps [of txs nz])
      moreover have "cashFlowIterations nz = 1 + cashFlowIterations rest"
        using long Some p by (simp add: cashFlowIterations.simps [of nz])
      ultimately show ?thesis by simp
    qed
  qed
qed

text \<open>
  Claim C3. The loop of \<open>calculateMinCashFlow\<close> terminates (\<open>cashFlowLoop\<close> is a total
  function: every pass that does not break removes an entry of the array), it enters its
  body at most \<open>n - 1\<close> times and the plan has at most \<open>n - 1\<close> transactions, where \<open>n\<close> is
  the number of balances whose absolute value exceeds 0.01. For \<open>n = 0\<close> both counts are 0.
\<close>

theorem calculateMinCashFlow_iteration_bound:
  "int (cashFlowIterations (nonZeroOf balances))
     \<le> max 0 (int (length (filter (\<lambda>b. \<bar>net_amount b\<bar> > 1 / 100) balances)) - 1)
   \<and> int (length (calculateMinCashFlow balances))
     \<le> max 0 (int (length (filter (\<lambda>b. \<bar>net_amount b\<bar> > 1 / 100) balances)) - 1)"
proof -
  let ?nz = "nonZeroOf balances"
  have n: "length (filter (\<lambda>b. \<bar>net_amount b\<bar> > 1 / 100) balances) = length ?nz"
    by (simp add: nonZeroOf_def)
  have it: "cashFlowIterations ?nz \<le> length ?nz - 1"
    by (rule cashFlowIterations_bound)
  have "length (calculateMinCashFlow balances) \<le> cashFlowIterations ?nz"
    using cashFlowLoop_length [of "[]" ?nz] by (simp add: calculateMinCashFlow_def)
  with it have "length (calculateMinCashFlow balances) \<le> length ?nz - 1" by simp
  with it show ?thesis unfolding n by linarith
qed

theorem calculateMinCashFlow_iteration_bound_witness:
  "cashFlowIterations (nonZeroOf
     [\<lparr>SimplifiedBalance.user_id = ''A'', user_name = ''Asha'', net_amount = - 60\<rparr>,
      \<lparr>SimplifiedBalance.user_id = ''B'', user_name = ''Bala'', net_amount = 40\<rparr>,
      \<lparr>SimplifiedBalance.user_id = ''C'', user_name = ''Chitra'', net_amount = 20\<rparr>,
      \<lparr>SimplifiedBalance.user_id = ''D'', user_name = ''Dev'', net_amount = 0\<rparr>]) = 2
   \<and> length (calculateMinCashFlow
     [\<lparr>SimplifiedBalance.user_id = ''A'', user_name = ''Asha'', net_amount = - 60\<rparr>,
      \<lparr>SimplifiedBalance.user_id = ''B'', user_name = ''Bala'', net_amount = 40\<rparr>,
      \<lparr>SimplifiedBalance.user_id = ''C'', user_name = ''Chitra'', net_amount = 20\<rparr>,
      \<lparr>SimplifiedBalance.user_id = ''D'', user_name = ''Dev'', net_amount = 0\<rparr>]) = 2
   \<and> length (filter (\<lambda>b. \<bar>net_amount b\<bar> > 1 / 100)
     [\<lparr>SimplifiedBalance.user_id = ''A'', user_name = ''Asha'', net_amount = - 60\<rparr>,
      \<lparr>SimplifiedBalance.user_id = ''B'', user_name = ''Bala'', net_amount = 40\<rparr>,
      \<lparr>SimplifiedBalance.user_id = ''C'', user_name = ''Chitra'', net_amount = 20\<rparr>,
      \<lparr>SimplifiedBalance.user_id = ''D'', user_name = ''Dev'', net_amount = 0\<rparr>]) = 3"
proof -
  let ?bs = "[\<lparr>SimplifiedBalance.user_id = ''A'', user_name = ''Asha'', net_amount = - 60\<rparr>,
      \<lparr>SimplifiedBalance.user_id = ''B'', user_name = ''Bala'', net_amount = 40\<rparr>,
      \<lparr>SimplifiedBalance.user_id = ''C'', user_name = ''Chitra'', net_amount = 20\<rparr>,
      \<lparr>SimplifiedBalance.user_id = ''D'', user_name = ''Dev'', net_amount = 0\<rparr>]"
  have n: "length (filter (\<lambda>b. \<bar>net_amount b\<bar> > 1 / 100) ?bs) = 3" by simp
  have it: "cashFlowIterations (nonZeroOf ?bs) \<ge> 2" by code_simp
  have len: "length (calculateMinCashFlow ?bs) \<ge> 2" by code_simp
  from calculateMinCashFlow_iteration_bound [of ?bs] n it len show ?thesis by simp
qed

section \<open>One pass of the loop\<close>

lemma settleStep_SomeE:
  assumes ne: "xs \<noteq> []" and st: "settleStep xs = Some (t, xs')"
  obtains ci di c d s b2 b3 where
    "ci = maxCreditorIndex xs" "di = maxDebtorIndex xs"
    "ci < length xs" "di < length xs" "ci \<noteq> di"
    "c = net_amount (xs ! ci)" "d = net_amount (xs ! di)"
    "c > 1 / 100" "d < - (1 / 100)" "s = min c (- d)"
    "t = \<lparr>from = SimplifiedBalance.user_id (xs ! di), to = SimplifiedBalance.user_id (xs ! ci),
          DebtFlow.amount = round2 s, fromName = Some (user_name (xs ! di)),
          toName = Some (user_name (xs ! ci))\<rparr>"
    "b2 = xs[ci := (xs ! ci)\<lparr>net_amount := c - s\<rparr>, di := (xs ! di)\<lparr>net_amount := d + s\<rparr>]"
    "b3 = (if \<bar>c - s\<bar> \<le> 1 / 100 then splice1 ci b2 else b2)"
    "xs' = (if \<bar>d + s\<bar> \<le> 1 / 100 then
              (case findIndex (\<lambda>b. SimplifiedBalance.user_id b
                                      = SimplifiedBalance.user_id (xs ! di)) b3 of
                 None \<Rightarrow> b3 | Some j \<Rightarrow> splice1 j b3)
            else b3)"
proof -
  define ci where "ci = maxCreditorIndex xs"
  define di where "di = maxDebtorIndex xs"
  define c where "c = net_amount (xs ! ci)"
  define d where "d = net_amount (xs ! di)"
  define s0 where "s0 = min c \<bar>d\<bar>"
  define b1 where "b1 = xs[ci := (xs ! ci)\<lparr>net_amount := c - s0\<rparr>]"
  define b2r where "b2r = b1[di := (b1 ! di)\<lparr>net_amount := net_amount (b1 ! di) + s0\<rparr>]"
  define b3r where "b3r = (if \<bar>net_amount (b2r ! ci)\<bar> \<le> 1 / 100 then splice1 ci b2r else b2r)"
  define s where "s = min c (- d)"
  define b2 where
    "b2 = xs[ci := (xs ! ci)\<lparr>net_amount := c - s\<rparr>, di := (xs ! di)\<lparr>net_amount := d + s\<rparr>]"
  define b3 where "b3 = (if \<bar>c - s\<bar> \<le> 1 / 100 then splice1 ci b2 else b2)"
  have ci: "ci < length xs" and di: "di < length xs"
    using maxCreditorIndex_first(1) [OF ne] maxDebtorIndex_first(1) [OF ne]
    by (simp_all add: ci_def di_def)
  from st have nb: "\<not> (c \<le> 1 / 100 \<or> d \<ge> - (1 / 100))"
    unfolding settleStep_def Let_def c_def d_def ci_def di_def
    by (auto split: if_splits)
  then have cd: "c > 1 / 100" "d < - (1 / 100)" by auto
  then have neq: "ci \<noteq> di" unfolding c_def d_def by auto
  from st nb have raw_t: "t = \<lparr>from = SimplifiedBalance.user_id (xs ! di),
          to = SimplifiedBalance.user_id (xs ! ci),
          DebtFlow.amount = round2 s0, fromName = Some (user_name (xs ! di)),
          toName = Some (user_name (xs ! ci))\<rparr>"
    unfolding settleStep_def Let_def s0_def c_def d_def ci_def di_def
    by (auto split: if_splits)
  from st nb have raw_xs': "xs' = (if \<bar>net_amount (b2r ! di)\<bar> \<le> 1 / 100 \<and> length b3r > 0 then
              (case findIndex (\<lambda>b. SimplifiedBalance.user_id b
                                      = SimplifiedBalance.user_id (xs ! di)) b3r of
                 None \<Rightarrow> b3r | Some j \<Rightarrow> splice1 j b3r)
            else b3r)"
    unfolding settleStep_def Let_def b3r_def b2r_def b1_def s0_def c_def d_def ci_def di_def
    by (auto split: if_splits)
  have s0: "s0 = s" using cd by (simp add: s0_def s_def)
  have b2r: "b2r = b2"
    using ci di neq by (simp add: b2r_def b1_def b2_def s0 d_def)
  have nci: "net_amount (b2 ! ci) = c - s" and ndi: "net_amount (b2 ! di) = d + s"
    using ci di neq by (simp_all add: b2_def)
  have b3r: "b3r = b3"
    by (simp add: b3r_def b3_def b2r nci)
  have len3: "length b3 > 0"
  proof -
    have "length b2 = length xs" by (simp add: b2_def)
    moreover have "length xs \<ge> 2" using ci di neq by linarith
    ultimately have "length (splice1 ci b2) > 0" "length b2 > 0"
      using ci ne by (simp_all add: length_splice1)
    then show ?thesis by (simp add: b3_def)
  qed
  have t: "t = \<lparr>from = SimplifiedBalance.user_id (xs ! di),
          to = SimplifiedBalance.user_id (xs ! ci),
          DebtFlow.amount = round2 s, fromName = Some (user_name (xs ! di)),
          toName = Some (user_name (xs ! ci))\<rparr>"
    using raw_t by (simp add: s0)
  have xs': "xs' = (if \<bar>d + s\<bar> \<le> 1 / 100 then
              (case findIndex (\<lambda>b. SimplifiedBalance.user_id b
                                      = SimplifiedBalance.user_id (xs ! di)) b3 of
                 None \<Rightarrow> b3 | Some j \<Rightarrow> splice1 j b3)
            else b3)"
    using raw_xs' [unfolded b3r b2r ndi] len3 by simp
  from that [OF ci_def di_def ci di neq c_def d_def cd s_def t b2_def b3_def xs'] show thesis .
qed

lemma list_update_by_key:
  assumes "distinct (map f xs)" and "i < length xs" and "f y = f (xs ! i)"
  shows "xs[i := y] = map (\<lambda>b. if f b = f (xs ! i) then y else b) xs"
proof (rule nth_equalityI)
  show "length (xs[i := y]) = length (map (\<lambda>b. if f b = f (xs ! i) then y else b) xs)"
    by simp
next
  fix j assume "j < length (xs[i := y])"
  then have j: "j < length xs" by simp
  have "f (xs ! j) = f (xs ! i) \<longleftrightarrow> j = i"
    using assms(1,2) j nth_eq_iff_index_eq [of "map f xs" j i] by auto
  then show "xs[i := y] ! j = map (\<lambda>b. if f b = f (xs ! i) then y else b) xs ! j"
    using j by (auto simp: nth_list_update)
qed

lemma splice1_by_key:
  assumes "distinct (map f xs)" and "i < length xs"
  shows "splice1 i xs = filter (\<lambda>b. f b \<noteq> f (xs ! i)) xs"
proof -
  have xs: "xs = take i xs @ xs ! i # drop (Suc i) xs"
    using assms(2) by (rule id_take_nth_drop)
  have d: "distinct (map f (take i xs) @ f (xs ! i) # map f (drop (Suc i) xs))"
    using assms(1) xs by (metis list.simps(9) map_append)
  then have a: "\<forall>b\<in>set (take i xs). f b \<noteq> f (xs ! i)"
    and b: "\<forall>b\<in>set (drop (Suc i) xs). f b \<noteq> f (xs ! i)"
    by (auto simp: image_iff)
  have "filter (\<lambda>b. f b \<noteq> f (xs ! i)) xs
          = filter (\<lambda>b. f b \<noteq> f (xs ! i)) (take i xs @ xs ! i # drop (Suc i) xs)"
    using xs by simp
  also have "\<dots> = take i xs @ drop (Suc i) xs"
    using a b by (simp add: filter_id_conv)
  finally show ?thesis by (simp add: splice1_def)
qed

lemma findIndex_splice1_by_key:
  assumes "distinct (map f xs)" and "u \<in> f ` set xs"
  shows "(case findIndex (\<lambda>b. f b = u) xs of None \<Rightarrow> xs | Some j \<Rightarrow> splice1 j xs)
           = filter (\<lambda>b. f b \<noteq> u) xs"
proof -
  from assms(2) have "\<exists>x\<in>set xs. f x = u" by auto
  from findIndex_first [OF this] obtain j where
    j: "findIndex (\<lambda>b. f b = u) xs = Some j" "j < length xs" "f (xs ! j) = u" by blast
  show ?thesis
    using splice1_by_key [OF assms(1) j(2)] j by simp
qed

lemma distinct_key_eq:
  assumes "distinct (map f xs)" and "b \<in> set xs" and "i < length xs" and "f b = f (xs ! i)"
  shows "b = xs ! i"
proof -
  from assms(2) obtain j where j: "j < length xs" "xs ! j = b"
    by (auto simp: in_set_conv_nth)
  have "map f xs ! j = map f xs ! i" using j assms(3,4) by simp
  then have "j = i"
    using nth_eq_iff_index_eq [OF assms(1), of j i] assms(3) j(1) by simp
  with j show ?thesis by simp
qed

lemma settleStep_by_id:
  assumes ne: "xs \<noteq> []" and st: "settleStep xs = Some (t, xs')"
    and dist: "distinct (map SimplifiedBalance.user_id xs)"
  obtains cr db s where
    "cr \<in> set xs" "db \<in> set xs"
    "SimplifiedBalance.user_id cr \<noteq> SimplifiedBalance.user_id db"
    "net_amount cr > 1 / 100" "net_amount db < - (1 / 100)"
    "s = min (net_amount cr) (- net_amount db)"
    "t = \<lparr>from = SimplifiedBalance.user_id db, to = SimplifiedBalance.user_id cr,
          DebtFlow.amount = round2 s, fromName = Some (user_name db),
          toName = Some (user_name cr)\<rparr>"
    "xs' = filter (\<lambda>b. (\<bar>net_amount db + s\<bar> \<le> 1 / 100
                         \<longrightarrow> SimplifiedBalance.user_id b \<noteq> SimplifiedBalance.user_id db))
            (filter (\<lambda>b. (\<bar>net_amount cr - s\<bar> \<le> 1 / 100
                         \<longrightarrow> SimplifiedBalance.user_id b \<noteq> SimplifiedBalance.user_id cr))
              (map (\<lambda>b. if SimplifiedBalance.user_id b = SimplifiedBalance.user_id cr
                         then b\<lparr>net_amount := net_amount cr - s\<rparr>
                         else if SimplifiedBalance.user_id b = SimplifiedBalance.user_id db
                         then b\<lparr>net_amount := net_amount db + s\<rparr> else b) xs))"
proof -
  let ?id = "SimplifiedBalance.user_id"
  from ne st obtain ci di c d s b2 b3 where
    ci: "ci < length xs" and di: "di < length xs" and neq: "ci \<noteq> di"
    and c: "c = net_amount (xs ! ci)" and d: "d = net_amount (xs ! di)"
    and cd: "c > 1 / 100" "d < - (1 / 100)" and s: "s = min c (- d)"
    and t: "t = \<lparr>from = ?id (xs ! di), to = ?id (xs ! ci),
          DebtFlow.amount = round2 s, fromName = Some (user_name (xs ! di)),
          toName = Some (user_name (xs ! ci))\<rparr>"
    and b2: "b2 = xs[ci := (xs ! ci)\<lparr>net_amount := c - s\<rparr>, di := (xs ! di)\<lparr>net_amount := d + s\<rparr>]"
    and b3: "b3 = (if \<bar>c - s\<bar> \<le> 1 / 100 then splice1 ci b2 else b2)"
    and xs': "xs' = (if \<bar>d + s\<bar> \<le> 1 / 100 then
              (case findIndex (\<lambda>b. ?id b = ?id (xs ! di)) b3 of
                 None \<Rightarrow> b3 | Some j \<Rightarrow> splice1 j b3)
            else b3)"
    by (rule settleStep_SomeE)
  define cr where "cr = xs ! ci"
  define db where "db = xs ! di"
  have mem: "cr \<in> set xs" "db \<in> set xs" using ci di by (simp_all add: cr_def db_def)
  have idneq: "?id cr \<noteq> ?id db"
    using dist ci di neq nth_eq_iff_index_eq [of "map ?id xs" ci di]
    by (simp add: cr_def db_def)
  let ?upd = "\<lambda>b. if ?id b = ?id cr then b\<lparr>net_amount := c - s\<rparr>
                   else if ?id b = ?id db then b\<lparr>net_amount := d + s\<rparr> else b"
  have ids1: "map ?id (xs[ci := cr\<lparr>net_amount := c - s\<rparr>]) = map ?id xs"
    using ci by (simp add: map_update cr_def list_update_same_conv)
  have b2map: "b2 = map ?upd xs"
  proof -
    have one: "xs[ci := cr\<lparr>net_amount := c - s\<rparr>]
                 = map (\<lambda>b. if ?id b = ?id cr then cr\<lparr>net_amount := c - s\<rparr> else b) xs"
      using list_update_by_key [OF dist ci, of "cr\<lparr>net_amount := c - s\<rparr>"]
      by (simp add: cr_def)
    have nth1: "xs[ci := cr\<lparr>net_amount := c - s\<rparr>] ! di = db"
      using neq by (simp add: db_def)
    have two: "(xs[ci := cr\<lparr>net_amount := c - s\<rparr>])[di := db\<lparr>net_amount := d + s\<rparr>]
                 = map (\<lambda>b. if ?id b = ?id db then db\<lparr>net_amount := d + s\<rparr> else b)
                     (xs[ci := cr\<lparr>net_amount := c - s\<rparr>])"
      using list_update_by_key [of ?id "xs[ci := cr\<lparr>net_amount := c - s\<rparr>]" di
              "db\<lparr>net_amount := d + s\<rparr>"] dist di ids1 nth1
      by simp
    have "b2 = map (\<lambda>b. if ?id b = ?id db then db\<lparr>net_amount := d + s\<rparr> else b)
                 (map (\<lambda>b. if ?id b = ?id cr then cr\<lparr>net_amount := c - s\<rparr> else b) xs)"
      using two one by (simp add: b2 cr_def db_def)
    also have "\<dots> = map ?upd xs"
    proof -
      have "(if ?id (if ?id b = ?id cr then cr\<lparr>net_amount := c - s\<rparr> else b) = ?id db
             then db\<lparr>net_amount := d + s\<rparr>
             else (if ?id b = ?id cr then cr\<lparr>net_amount := c - s\<rparr> else b)) = ?upd b"
        if "b \<in> set xs" for b
      proof (cases "?id b = ?id cr")
        case True
        then have "b = cr" using distinct_key_eq [OF dist that ci] by (simp add: cr_def)
        then show ?thesis using idneq by simp
      next
        case False
        show ?thesis
        proof (cases "?id b = ?id db")
          case True
          then have "b = db" using distinct_key_eq [OF dist that di] by (simp add: db_def)
          then show ?thesis using idneq by simp
        next
          case nd: False
          with False show ?thesis by simp
        qed
      qed
      then show ?thesis by (simp add: comp_def)
    qed
    finally show ?thesis .
  qed
  have ids2: "map ?id b2 = map ?id xs"
    unfolding b2map by (simp add: comp_def)
  then have dist2: "distinct (map ?id b2)" using dist by simp
  have len2: "length b2 = length xs" by (simp add: b2)
  have idci: "?id (b2 ! ci) = ?id cr" and iddi: "?id (b2 ! di) = ?id db"
    using ci di neq by (simp_all add: b2 cr_def db_def)
  let ?P1 = "\<lambda>b. (\<bar>c - s\<bar> \<le> 1 / 100 \<longrightarrow> ?id b \<noteq> ?id cr)"
  let ?P2 = "\<lambda>b. (\<bar>d + s\<bar> \<le> 1 / 100 \<longrightarrow> ?id b \<noteq> ?id db)"
  have b3f: "b3 = filter ?P1 b2"
    using splice1_by_key [OF dist2, of ci] ci len2 idci by (simp add: b3)
  have dist3: "distinct (map ?id b3)"
    unfolding b3f using dist2 by (simp add: distinct_map_filter)
  have "b2 ! di \<in> set b3"
    unfolding b3f using di len2 iddi idneq by auto
  then have "?id db \<in> ?id ` set b3" using iddi by (metis imageI)
  then have "(case findIndex (\<lambda>b. ?id b = ?id db) b3 of None \<Rightarrow> b3 | Some j \<Rightarrow> splice1 j b3)
               = filter (\<lambda>b. ?id b \<noteq> ?id db) b3"
    using findIndex_splice1_by_key [OF dist3] by blast
  then have "xs' = filter ?P2 b3"
    using xs' by (simp add: db_def)
  then have final: "xs' = filter ?P2 (filter ?P1 (map ?upd xs))"
    by (simp add: b3f b2map)
  have c': "c = net_amount cr" and d': "d = net_amount db"
    by (simp_all add: c d cr_def db_def)
  have t': "t = \<lparr>from = ?id db, to = ?id cr, DebtFlow.amount = round2 s,
                fromName = Some (user_name db), toName = Some (user_name cr)\<rparr>"
    using t by (simp add: cr_def db_def)
  show thesis
    by (rule that [OF mem idneq cd [unfolded c' d'] s [unfolded c' d'] t' final [unfolded c' d']])
qed

section \<open>Whole paise\<close>

lemma paise_iff: "paise x \<longleftrightarrow> (\<exists>k::int. x = of_int k / 100)"
proof
  assume "paise x"
  define k where "k = \<lfloor>x * 100\<rfloor>"
  from \<open>paise x\<close> have "of_int k = x * 100" unfolding paise_def k_def .
  then have "x = of_int k / 100" by simp
  then show "\<exists>k::int. x = of_int k / 100" ..
next
  assume "\<exists>k::int. x = of_int k / 100"
  then obtain k :: int where "x = of_int k / 100" ..
  then show "paise x" by (simp add: paise_def)
qed

lemma paise_0 [simp]: "paise 0"
  by (simp add: paise_def)

lemma paise_add: "paise x \<Longrightarrow> paise y \<Longrightarrow> paise (x + y)"
proof -
  assume "paise x" "paise y"
  then obtain k l :: int where "x = of_int k / 100" "y = of_int l / 100"
    unfolding paise_iff by blast
  then have "x + y = of_int (k + l) / 100" by (simp add: add_divide_distrib)
  then show ?thesis unfolding paise_iff ..
qed

lemma paise_minus: "paise x \<Longrightarrow> paise (- x)"
proof -
  assume "paise x"
  then obtain k :: int where "x = of_int k / 100" unfolding paise_iff ..
  then have "- x = of_int (- k) / 100" by simp
  then show ?thesis unfolding paise_iff ..
qed

lemma paise_diff: "paise x \<Longrightarrow> paise y \<Longrightarrow> paise (x - y)"
  using paise_add [of x "- y"] paise_minus [of y] by simp

lemma paise_min: "paise x \<Longrightarrow> paise y \<Longrightarrow> paise (min x y)"
  by (simp add: min_def)

lemma Math_round_of_int: "Math_round (of_int k) = k"
  unfolding Math_round_def by (rule floor_unique) simp_all

lemma paise_round2 [simp]: "paise (round2 x)"
  unfolding paise_iff round2_def by blast

lemma round2_paise: "paise x \<Longrightarrow> round2 x = x"
proof -
  assume "paise x"
  then obtain k :: int where k: "x = of_int k / 100" unfolding paise_iff ..
  then have "x * 100 = of_int k" by simp
  then show ?thesis by (simp add: round2_def Math_round_of_int k)
qed

lemma round2_pos:
  assumes "x > 1 / 100"
  shows "round2 x \<ge> 1 / 100"
proof -
  have "(1::rat) \<le> x * 100" using assms by simp
  then have "(1::int) \<le> \<lfloor>x * 100 + 1 / 2\<rfloor>" by (simp add: le_floor_iff)
  then have "(1::rat) \<le> of_int (Math_round (x * 100))"
    unfolding Math_round_def by (metis of_int_1_le_iff)
  then show ?thesis by (simp add: round2_def)
qed

section \<open>The extremal pair of a pass\<close>

text \<open>
  Claim C5 (amended). In a pass that does not break, the creditor is the first entry
  with the largest amount and the debtor the first entry with the smallest amount, the
  transaction goes from the debtor to the creditor, and its amount is
  \<open>min(creditor, -debtor)\<close> rounded to two decimals; it is \<open>min(creditor, -debtor)\<close>
  itself when both amounts are whole paise.
\<close>

theorem settleStep_extremal_pair:
  assumes "nonZeroBalances \<noteq> []"
    and "settleStep nonZeroBalances = Some (transaction, rest)"
  shows "maxCreditorIndex nonZeroBalances < length nonZeroBalances
       \<and> maxDebtorIndex nonZeroBalances < length nonZeroBalances
       \<and> (\<forall>j<length nonZeroBalances. net_amount (nonZeroBalances ! j)
              \<le> net_amount (nonZeroBalances ! maxCreditorIndex nonZeroBalances))
       \<and> (\<forall>j<maxCreditorIndex nonZeroBalances. net_amount (nonZeroBalances ! j)
              < net_amount (nonZeroBalances ! maxCreditorIndex nonZeroBalances))
       \<and> (\<forall>j<length nonZeroBalances. net_amount (nonZeroBalances ! maxDebtorIndex nonZeroBalances)
              \<le> net_amount (nonZeroBalances ! j))
       \<and> (\<forall>j<maxDebtorIndex nonZeroBalances. net_amount (nonZeroBalances ! maxDebtorIndex nonZeroBalances)
              < net_amount (nonZeroBalances ! j))
       \<and> from transaction = SimplifiedBalance.user_id (nonZeroBalances ! maxDebtorIndex nonZeroBalances)
       \<and> to transaction = SimplifiedBalance.user_id (nonZeroBalances ! maxCreditorIndex nonZeroBalances)
       \<and> DebtFlow.amount transaction
            = round2 (min (net_amount (nonZeroBalances ! maxCreditorIndex nonZeroBalances))
                          (- net_amount (nonZeroBalances ! maxDebtorIndex nonZeroBalances)))
       \<and> (paise (net_amount (nonZeroBalances ! maxCreditorIndex nonZeroBalances))
            \<and> paise (net_amount (nonZeroBalances ! maxDebtorIndex nonZeroBalances))
          \<longrightarrow> DebtFlow.amount transaction
                = min (net_amount (nonZeroBalances ! maxCreditorIndex nonZeroBalances))
                      (- net_amount (nonZeroBalances ! maxDebtorIndex nonZeroBalances)))"
proof -
  from assms obtain ci di c d s where
    ci: "ci = maxCreditorIndex nonZeroBalances" and di: "di = maxDebtorIndex nonZeroBalances"
    and c: "c = net_amount (nonZeroBalances ! ci)" and d: "d = net_amount (nonZeroBalances ! di)"
    and s: "s = min c (- d)"
    and t: "transaction = \<lparr>from = SimplifiedBalance.user_id (nonZeroBalances ! di),
          to = SimplifiedBalance.user_id (nonZeroBalances ! ci),
          DebtFlow.amount = round2 s, fromName = Some (user_name (nonZeroBalances ! di)),
          toName = Some (user_name (nonZeroBalances ! ci))\<rparr>"
    by (rule settleStep_SomeE)
  have amt: "DebtFlow.amount transaction = round2 (min c (- d))"
    and fr: "from transaction = SimplifiedBalance.user_id (nonZeroBalances ! di)"
    and to: "to transaction = SimplifiedBalance.user_id (nonZeroBalances ! ci)"
    by (simp_all add: t s)
  have exact: "DebtFlow.amount transaction = min c (- d)" if "paise c" "paise d"
    unfolding amt using that by (intro round2_paise paise_min paise_minus)
  show ?thesis
    using maxCreditorIndex_first [OF assms(1)] maxDebtorIndex_first [OF assms(1)]
      amt fr to exact
    unfolding ci di c d by blast
qed

theorem settleStep_extremal_pair_witness:
  "settleStep
     [\<lparr>SimplifiedBalance.user_id = ''A'', user_name = ''Asha'', net_amount = - 60\<rparr>,
      \<lparr>SimplifiedBalance.user_id = ''B'', user_name = ''Bala'', net_amount = 40\<rparr>,
      \<lparr>SimplifiedBalance.user_id = ''C'', user_name = ''Chitra'', net_amount = 40\<rparr>]
   = Some (\<lparr>from = ''A'', to = ''B'', DebtFlow.amount = 40, fromName = Some ''Asha'',
             toName = Some ''Bala''\<rparr>,
           [\<lparr>SimplifiedBalance.user_id = ''A'', user_name = ''Asha'', net_amount = - 20\<rparr>,
            \<lparr>SimplifiedBalance.user_id = ''C'', user_name = ''Chitra'', net_amount = 40\<rparr>])
   \<and> maxCreditorIndex
     [\<lparr>SimplifiedBalance.user_id = ''A'', user_name = ''Asha'', net_amount = - 60\<rparr>,
      \<lparr>SimplifiedBalance.user_id = ''B'', user_name = ''Bala'', net_amount = 40\<rparr>,
      \<lparr>SimplifiedBalance.user_id = ''C'', user_name = ''Chitra'', net_amount = 40\<rparr>] = 1
   \<and> maxDebtorIndex
     [\<lparr>SimplifiedBalance.user_id = ''A'', user_name = ''Asha'', net_amount = - 60\<rparr>,
      \<lparr>SimplifiedBalance.user_id = ''B'', user_name = ''Bala'', net_amount = 40\<rparr>,
      \<lparr>SimplifiedBalance.user_id = ''C'', user_name = ''Chitra'', net_amount = 40\<rparr>] = 0"
proof -
  let ?xs = "[\<lparr>SimplifiedBalance.user_id = ''A'', user_name = ''Asha'', net_amount = - 60\<rparr>,
      \<lparr>SimplifiedBalance.user_id = ''B'', user_name = ''Bala'', net_amount = 40\<rparr>,
      \<lparr>SimplifiedBalance.user_id = ''C'', user_name = ''Chitra'', net_amount = 40\<rparr>]"
  have ci: "maxCreditorIndex ?xs = 1" by code_simp
  have di: "maxDebtorIndex ?xs = 0" by code_simp
  have st: "settleStep ?xs
   = Some (\<lparr>from = ''A'', to = ''B'', DebtFlow.amount = 40, fromName = Some ''Asha'',
             toName = Some ''Bala''\<rparr>,
           [\<lparr>SimplifiedBalance.user_id = ''A'', user_name = ''Asha'', net_amount = - 20\<rparr>,
            \<lparr>SimplifiedBalance.user_id = ''C'', user_name = ''Chitra'', net_amount = 40\<rparr>])"
    by code_simp
  have ne: "?xs \<noteq> []" by simp
  from settleStep_extremal_pair [OF ne st] ci di st show ?thesis by simp
qed

theorem settleStep_amount_counterexample:
  "settleStep
     [\<lparr>SimplifiedBalance.user_id = ''A'', user_name = ''Asha'', net_amount = 1 / 8\<rparr>,
      \<lparr>SimplifiedBalance.user_id = ''B'', user_name = ''Bala'', net_amount = - (1 / 8)\<rparr>]
   = Some (\<lparr>from = ''B'', to = ''A'', DebtFlow.amount = 13 / 100, fromName = Some ''Bala'',
             toName = Some ''Asha''\<rparr>, [])
   \<and> (13 / 100 :: rat) \<noteq> min (1 / 8) (- (- (1 / 8)))"
  by code_simp

section \<open>Invariants of the loop\<close>

lemma cashFlowLoop_invariant:
  assumes "P transactions xs"
    and "\<And>txs ys t ys'. P txs ys \<Longrightarrow> length ys > 1 \<Longrightarrow> settleStep ys = Some (t, ys')
            \<Longrightarrow> P (txs @ [t]) ys'"
  shows "P (fst (cashFlowLoop transactions xs)) (snd (cashFlowLoop transactions xs))"
  using assms(1)
proof (induction transactions xs rule: cashFlowLoop.induct)
  case (1 txs nz)
  show ?case
  proof (cases "length nz > 1")
    case False
    with "1.prems" show ?thesis by (simp add: cashFlowLoop.simps [of txs nz])
  next
    case long: True
    show ?thesis
    proof (cases "settleStep nz")
      case None
      with long "1.prems" show ?thesis by (simp add: cashFlowLoop.simps [of txs nz])
    next
      case (Some p)
      obtain t rest where p: "p = (t, rest)" by (cases p)
      have "P (txs @ [t]) rest"
        using assms(2) [OF "1.prems" long] Some p by simp
      then have "P (fst (cashFlowLoop (txs @ [t]) rest)) (snd (cashFlowLoop (txs @ [t]) rest))"
        using "1.IH" [OF long Some p [symmetric]] by simp
      moreover have "cashFlowLoop txs nz = cashFlowLoop (txs @ [t]) rest"
        using long Some p by (simp add: cashFlowLoop.simps [of txs nz])
      ultimately show ?thesis by simp
    qed
  qed
qed

lemma set_filter2: "set (filter P (filter Q zs)) \<subseteq> set zs"
  by auto

lemma settleStep_ids:
  assumes ne: "xs \<noteq> []" and st: "settleStep xs = Some (t, xs')"
    and dist: "distinct (map SimplifiedBalance.user_id xs)"
  shows "distinct (map SimplifiedBalance.user_id xs')"
    and "set (map SimplifiedBalance.user_id xs') \<subseteq> set (map SimplifiedBalance.user_id xs)"
    and "from t \<noteq> to t"
    and "from t \<in> set (map SimplifiedBalance.user_id xs)"
    and "to t \<in> set (map SimplifiedBalance.user_id xs)"
proof -
  let ?id = "SimplifiedBalance.user_id"
  from ne st dist obtain cr db s where
    mem: "cr \<in> set xs" "db \<in> set xs" and idneq: "?id cr \<noteq> ?id db"
    and t: "t = \<lparr>from = ?id db, to = ?id cr, DebtFlow.amount = round2 s,
                  fromName = Some (user_name db), toName = Some (user_name cr)\<rparr>"
    and xs': "xs' = filter (\<lambda>b. (\<bar>net_amount db + s\<bar> \<le> 1 / 100 \<longrightarrow> ?id b \<noteq> ?id db))
            (filter (\<lambda>b. (\<bar>net_amount cr - s\<bar> \<le> 1 / 100 \<longrightarrow> ?id b \<noteq> ?id cr))
              (map (\<lambda>b. if ?id b = ?id cr then b\<lparr>net_amount := net_amount cr - s\<rparr>
                         else if ?id b = ?id db then b\<lparr>net_amount := net_amount db + s\<rparr>
                         else b) xs))"
    by (rule settleStep_by_id)
  let ?upd = "\<lambda>b. if ?id b = ?id cr then b\<lparr>net_amount := net_amount cr - s\<rparr>
                   else if ?id b = ?id db then b\<lparr>net_amount := net_amount db + s\<rparr> else b"
  have ids: "map ?id (map ?upd xs) = map ?id xs" by (simp add: comp_def)
  have "distinct (map ?id (map ?upd xs))" unfolding ids by (rule dist)
  then show "distinct (map ?id xs')"
    unfolding xs' by (intro distinct_map_filter)
  have "set xs' \<subseteq> set (map ?upd xs)" unfolding xs' by (rule set_filter2)
  then have "?id ` set xs' \<subseteq> ?id ` set (map ?upd xs)" by (rule image_mono)
  then have "set (map ?id xs') \<subseteq> set (map ?id (map ?upd xs))" by (simp only: set_map)
  then show "set (map ?id xs') \<subseteq> set (map ?id xs)" unfolding ids .
  show "from t \<noteq> to t" using idneq by (simp add: t)
  show "from t \<in> set (map ?id xs)" "to t \<in> set (map ?id xs)"
    using mem by (simp_all add: t)
qed

lemma settleStep_amount:
  assumes ne: "xs \<noteq> []" and st: "settleStep xs = Some (t, xs')"
  shows "DebtFlow.amount t \<ge> 1 / 100"
proof -
  from ne st obtain c d s where
    cd: "c > 1 / 100" "d < - (1 / 100)" and s: "s = min c (- d)"
    and amt: "DebtFlow.amount t = round2 s"
    by (rule settleStep_SomeE) simp
  from cd s have "s > 1 / 100" by simp
  then show ?thesis unfolding amt by (rule round2_pos)
qed

lemma cashFlowLoop_amounts:
  assumes "\<forall>t\<in>set transactions. DebtFlow.amount t \<ge> 1 / 100"
  shows "\<forall>t\<in>set (fst (cashFlowLoop transactions xs)). DebtFlow.amount t \<ge> 1 / 100"
proof -
  have "(\<lambda>(txs :: DebtFlow list) (ys :: SimplifiedBalance list).
            \<forall>t\<in>set txs. DebtFlow.amount t \<ge> 1 / 100)
          (fst (cashFlowLoop transactions xs)) (snd (cashFlowLoop transactions xs))"
  proof (rule cashFlowLoop_invariant)
    show "\<forall>t\<in>set transactions. DebtFlow.amount t \<ge> 1 / 100" by (rule assms)
  next
    fix txs :: "DebtFlow list" and ys :: "SimplifiedBalance list" and t ys'
    assume inv: "\<forall>u\<in>set txs. 1 / 100 \<le> DebtFlow.amount u" and long: "1 < length ys"
      and st: "settleStep ys = Some (t, ys')"
    from long have ne: "ys \<noteq> []" by auto
    have "DebtFlow.amount t \<ge> 1 / 100"
      using ne st by (rule settleStep_amount)
    with inv show "\<forall>u\<in>set (txs @ [t]). 1 / 100 \<le> DebtFlow.amount u" by simp
  qed
  then show ?thesis .
qed

lemma cashFlowLoop_no_self:
  assumes "distinct (map SimplifiedBalance.user_id xs)" and "\<forall>t\<in>set transactions. from t \<noteq> to t"
  shows "\<forall>t\<in>set (fst (cashFlowLoop transactions xs)). from t \<noteq> to t"
proof -
  have "(\<lambda>(txs :: DebtFlow list) ys.
            distinct (map SimplifiedBalance.user_id ys) \<and> (\<forall>t\<in>set txs. from t \<noteq> to t))
          (fst (cashFlowLoop transactions xs)) (snd (cashFlowLoop transactions xs))"
  proof (rule cashFlowLoop_invariant)
    show "distinct (map SimplifiedBalance.user_id xs) \<and> (\<forall>t\<in>set transactions. from t \<noteq> to t)"
      using assms by simp
  next
    fix txs :: "DebtFlow list" and ys :: "SimplifiedBalance list" and t ys'
    assume inv: "distinct (map SimplifiedBalance.user_id ys) \<and> (\<forall>u\<in>set txs. from u \<noteq> to u)"
      and long: "1 < length ys" and st: "settleStep ys = Some (t, ys')"
    from long have ne: "ys \<noteq> []" by auto
    from settleStep_ids(1,3) [OF ne st] inv
    show "distinct (map SimplifiedBalance.user_id ys') \<and> (\<forall>u\<in>set (txs @ [t]). from u \<noteq> to u)"
      by simp
  qed
  then show ?thesis by simp
qed

text \<open>
  Claim C9 (amended). Every transaction of the plan has a strictly positive amount, for
  every input; its payer differs from its payee when the user ids of the input are
  pairwise distinct.
\<close>

theorem calculateMinCashFlow_well_formed:
  "(\<forall>t\<in>set (calculateMinCashFlow balances). DebtFlow.amount t > 0)
   \<and> (distinct (map SimplifiedBalance.user_id balances)
        \<longrightarrow> (\<forall>t\<in>set (calculateMinCashFlow balances). from t \<noteq> to t))"
proof (intro conjI impI)
  have "\<forall>t\<in>set (fst (cashFlowLoop [] (nonZeroOf balances))). DebtFlow.amount t \<ge> 1 / 100"
    by (rule cashFlowLoop_amounts) simp
  then have "\<forall>t\<in>set (calculateMinCashFlow balances). DebtFlow.amount t \<ge> 1 / 100"
    by (simp add: calculateMinCashFlow_def)
  then show "\<forall>t\<in>set (calculateMinCashFlow balances). DebtFlow.amount t > 0"
    by fastforce
next
  assume "distinct (map SimplifiedBalance.user_id balances)"
  then have "distinct (map SimplifiedBalance.user_id (nonZeroOf balances))"
    unfolding nonZeroOf_def by (rule distinct_map_filter)
  then have "\<forall>t\<in>set (fst (cashFlowLoop [] (nonZeroOf balances))). from t \<noteq> to t"
    by (rule cashFlowLoop_no_self) simp
  then show "\<forall>t\<in>set (calculateMinCashFlow balances). from t \<noteq> to t"
    by (simp add: calculateMinCashFlow_def)
qed

theorem calculateMinCashFlow_well_formed_witness:
  "calculateMinCashFlow
     [\<lparr>SimplifiedBalance.user_id = ''A'', user_name = ''Asha'', net_amount = - 60\<rparr>,
      \<lparr>SimplifiedBalance.user_id = ''B'', user_name = ''Bala'', net_amount = 40\<rparr>,
      \<lparr>SimplifiedBalance.user_id = ''C'', user_name = ''Chitra'', net_amount = 20\<rparr>]
   = [\<lparr>from = ''A'', to = ''B'', DebtFlow.amount = 40, fromName = Some ''Asha'',
        toName = Some ''Bala''\<rparr>,
      \<lparr>from = ''A'', to = ''C'', DebtFlow.amount = 20, fromName = Some ''Asha'',
        toName = Some ''Chitra''\<rparr>]
   \<and> distinct (map SimplifiedBalance.user_id
     [\<lparr>SimplifiedBalance.user_id = ''A'', user_name = ''Asha'', net_amount = - 60\<rparr>,
      \<lparr>SimplifiedBalance.user_id = ''B'', user_name = ''Bala'', net_amount = 40\<rparr>,
      \<lparr>SimplifiedBalance.user_id = ''C'', user_name = ''Chitra'', net_amount = 20\<rparr>])
   \<and> list_all (\<lambda>t. DebtFlow.amount t > 0 \<and> from t \<noteq> to t)
     (calculateMinCashFlow
       [\<lparr>SimplifiedBalance.user_id = ''A'', user_name = ''Asha'', net_amount = - 60\<rparr>,
        \<lparr>SimplifiedBalance.user_id = ''B'', user_name = ''Bala'', net_amount = 40\<rparr>,
        \<lparr>SimplifiedBalance.user_id = ''C'', user_name = ''Chitra'', net_amount = 20\<rparr>])"
proof -
  let ?bs = "[\<lparr>SimplifiedBalance.user_id = ''A'', user_name = ''Asha'', net_amount = - 60\<rparr>,
      \<lparr>SimplifiedBalance.user_id = ''B'', user_name = ''Bala'', net_amount = 40\<rparr>,
      \<lparr>SimplifiedBalance.user_id = ''C'', user_name = ''Chitra'', net_amount = 20\<rparr>]"
  have plan: "calculateMinCashFlow ?bs
   = [\<lparr>from = ''A'', to = ''B'', DebtFlow.amount = 40, fromName = Some ''Asha'',
        toName = Some ''Bala''\<rparr>,
      \<lparr>from = ''A'', to = ''C'', DebtFlow.amount = 20, fromName = Some ''Asha'',
        toName = Some ''Chitra''\<rparr>]"
    by code_simp
  have d: "distinct (map SimplifiedBalance.user_id ?bs)" by simp
  from calculateMinCashFlow_well_formed [of ?bs] d
  have "list_all (\<lambda>t. DebtFlow.amount t > 0 \<and> from t \<noteq> to t) (calculateMinCashFlow ?bs)"
    unfolding list_all_iff by blast
  with plan d show ?thesis by blast
qed

theorem calculateMinCashFlow_self_payment_counterexample:
  "calculateMinCashFlow
     [\<lparr>SimplifiedBalance.user_id = ''A'', user_name = ''Asha'', net_amount = 5\<rparr>,
      \<lparr>SimplifiedBalance.user_id = ''A'', user_name = ''Asha'', net_amount = - 5\<rparr>]
   = [\<lparr>from = ''A'', to = ''A'', DebtFlow.amount = 5, fromName = Some ''Asha'',
        toName = Some ''Asha''\<rparr>]"
  by code_simp

section \<open>Settlement\<close>

lemma netEffect_Nil [simp]: "netEffect [] u = 0"
  by (simp add: netEffect_def)

lemma netEffect_Cons:
  "netEffect (t # ts) u
     = (if u = from t then DebtFlow.amount t else 0) - (if u = to t then DebtFlow.amount t else 0)
       + netEffect ts u"
  by (simp add: netEffect_def)

lemma netEffect_snoc:
  "netEffect (ts @ [t]) u
     = netEffect ts u
       + ((if u = from t then DebtFlow.amount t else 0) - (if u = to t then DebtFlow.amount t else 0))"
  by (simp add: netEffect_def)

lemma netEffect_outside:
  assumes "\<forall>t\<in>set ts. from t \<noteq> u \<and> to t \<noteq> u"
  shows "netEffect ts u = 0"
  using assms by (induction ts) (auto simp: netEffect_Cons)

lemma applyTransactions_netEffect:
  "applyTransactions ts bs
     = map (\<lambda>b. b\<lparr>net_amount := net_amount b + netEffect ts (SimplifiedBalance.user_id b)\<rparr>) bs"
proof (induction ts arbitrary: bs)
  case Nil
  show ?case by (simp add: applyTransactions_def)
next
  case (Cons t ts)
  have "applyTransactions (t # ts) bs = applyTransactions ts (applyTransaction t bs)"
    by (simp add: applyTransactions_def)
  also have "\<dots> = map (\<lambda>b. b\<lparr>net_amount := net_amount b
                              + netEffect ts (SimplifiedBalance.user_id b)\<rparr>)
                      (applyTransaction t bs)"
    by (rule Cons.IH)
  also have "\<dots> = map (\<lambda>b. b\<lparr>net_amount := net_amount b
                              + netEffect (t # ts) (SimplifiedBalance.user_id b)\<rparr>) bs"
    by (simp add: applyTransaction_def netEffect_Cons comp_def)
  finally show ?case .
qed

lemma distinct_key_unique:
  assumes "distinct (map f xs)" and "x \<in> set xs" and "y \<in> set xs" and "f x = f y"
  shows "x = y"
  using assms by (meson distinct_map inj_onD)

lemma settleStep_settles:
  assumes ne: "ys \<noteq> []" and st: "settleStep ys = Some (t, ys')"
    and dist: "distinct (map SimplifiedBalance.user_id ys)"
    and pa: "\<forall>y\<in>set ys. paise (net_amount y)"
  shows "\<forall>z\<in>set ys'. paise (net_amount z)"
    and "\<forall>y\<in>set ys.
           (\<exists>z\<in>set ys'. SimplifiedBalance.user_id z = SimplifiedBalance.user_id y
               \<and> net_amount z = net_amount y + netEffect [t] (SimplifiedBalance.user_id y))
         \<or> (SimplifiedBalance.user_id y \<notin> SimplifiedBalance.user_id ` set ys'
             \<and> \<bar>net_amount y + netEffect [t] (SimplifiedBalance.user_id y)\<bar> \<le> 1 / 100)"
proof -
  let ?id = "SimplifiedBalance.user_id"
  from ne st dist obtain cr db s where
    mem: "cr \<in> set ys" "db \<in> set ys" and idneq: "?id cr \<noteq> ?id db"
    and s: "s = min (net_amount cr) (- net_amount db)"
    and t: "t = \<lparr>from = ?id db, to = ?id cr, DebtFlow.amount = round2 s,
                  fromName = Some (user_name db), toName = Some (user_name cr)\<rparr>"
    and ys': "ys' = filter (\<lambda>b. (\<bar>net_amount db + s\<bar> \<le> 1 / 100 \<longrightarrow> ?id b \<noteq> ?id db))
            (filter (\<lambda>b. (\<bar>net_amount cr - s\<bar> \<le> 1 / 100 \<longrightarrow> ?id b \<noteq> ?id cr))
              (map (\<lambda>b. if ?id b = ?id cr then b\<lparr>net_amount := net_amount cr - s\<rparr>
                         else if ?id b = ?id db then b\<lparr>net_amount := net_amount db + s\<rparr>
                         else b) ys))"
    by (rule settleStep_by_id)
  define upd where "upd = (\<lambda>b :: SimplifiedBalance. if ?id b = ?id cr then b\<lparr>net_amount := net_amount cr - s\<rparr>
                         else if ?id b = ?id db then b\<lparr>net_amount := net_amount db + s\<rparr>
                         else b)"
  define kc where "kc \<longleftrightarrow> \<bar>net_amount cr - s\<bar> \<le> 1 / 100"
  define kd where "kd \<longleftrightarrow> \<bar>net_amount db + s\<bar> \<le> 1 / 100"
  have ys'': "ys' = filter (\<lambda>b. kd \<longrightarrow> ?id b \<noteq> ?id db)
                      (filter (\<lambda>b. kc \<longrightarrow> ?id b \<noteq> ?id cr) (map upd ys))"
    unfolding ys' upd_def kc_def kd_def ..
  have in_ys': "z \<in> set ys' \<longleftrightarrow>
      (\<exists>y\<in>set ys. z = upd y \<and> (kc \<longrightarrow> ?id y \<noteq> ?id cr) \<and> (kd \<longrightarrow> ?id y \<noteq> ?id db))" for z
  proof -
    have idu: "?id (upd y) = ?id y" for y by (simp add: upd_def)
    show ?thesis unfolding ys'' by (auto simp: idu)
  qed
  have idu: "?id (upd y) = ?id y" for y by (simp add: upd_def)
  have ps: "paise s"
    unfolding s using pa mem by (intro paise_min paise_minus) auto
  then have amt: "DebtFlow.amount t = s" by (simp add: t round2_paise)
  have eff: "netEffect [t] u = (if u = ?id db then s else 0) - (if u = ?id cr then s else 0)" for u
    by (simp add: netEffect_Cons t round2_paise [OF ps])
  show "\<forall>z\<in>set ys'. paise (net_amount z)"
  proof
    fix z assume "z \<in> set ys'"
    then obtain y where y: "y \<in> set ys" "z = upd y" unfolding in_ys' by blast
    have "paise (net_amount cr - s)" "paise (net_amount db + s)" "paise (net_amount y)"
      using pa mem ps y(1) by (auto intro: paise_diff paise_add)
    then show "paise (net_amount z)" unfolding y(2) upd_def by simp
  qed
  show "\<forall>y\<in>set ys.
           (\<exists>z\<in>set ys'. ?id z = ?id y \<and> net_amount z = net_amount y + netEffect [t] (?id y))
         \<or> (?id y \<notin> ?id ` set ys' \<and> \<bar>net_amount y + netEffect [t] (?id y)\<bar> \<le> 1 / 100)"
  proof
    fix y assume y: "y \<in> set ys"
    have out1: "?id y \<notin> ?id ` set ys'" if "kc" "?id y = ?id cr"
    proof
      assume "?id y \<in> ?id ` set ys'"
      then obtain z where z: "z \<in> set ys'" "?id y = ?id z" by auto
      from z(1) obtain y0 where "z = upd y0" "kc \<longrightarrow> ?id y0 \<noteq> ?id cr"
        unfolding in_ys' by blast
      with that z(2) idu show False by metis
    qed
    have out2: "?id y \<notin> ?id ` set ys'" if "kd" "?id y = ?id db"
    proof
      assume "?id y \<in> ?id ` set ys'"
      then obtain z where z: "z \<in> set ys'" "?id y = ?id z" by auto
      from z(1) obtain y0 where "z = upd y0" "kd \<longrightarrow> ?id y0 \<noteq> ?id db"
        unfolding in_ys' by blast
      with that z(2) idu show False by metis
    qed
    consider (cr) "?id y = ?id cr" | (db) "?id y = ?id db" | (other) "?id y \<noteq> ?id cr" "?id y \<noteq> ?id db"
      by blast
    then show "(\<exists>z\<in>set ys'. ?id z = ?id y \<and> net_amount z = net_amount y + netEffect [t] (?id y))
         \<or> (?id y \<notin> ?id ` set ys' \<and> \<bar>net_amount y + netEffect [t] (?id y)\<bar> \<le> 1 / 100)"
    proof cases
      case cr
      then have yc: "y = cr" using distinct_key_unique [OF dist y mem(1)] by simp
      have val: "net_amount y + netEffect [t] (?id y) = net_amount cr - s"
        using idneq by (simp add: eff yc)
      show ?thesis
      proof (cases kc)
        case True
        then show ?thesis using out1 [OF True cr] val by (simp add: kc_def)
      next
        case False
        have "upd y \<in> set ys'"
          unfolding in_ys' using y False cr idneq by auto
        moreover have "net_amount (upd y) = net_amount cr - s" by (simp add: upd_def yc)
        ultimately show ?thesis using val idu by metis
      qed
    next
      case db
      then have yd: "y = db" using distinct_key_unique [OF dist y mem(2)] by simp
      have val: "net_amount y + netEffect [t] (?id y) = net_amount db + s"
        using idneq by (simp add: eff yd)
      show ?thesis
      proof (cases kd)
        case True
        then show ?thesis using out2 [OF True db] val by (simp add: kd_def)
      next
        case False
        have "upd y \<in> set ys'"
          unfolding in_ys' using y False db idneq by auto
        moreover have "net_amount (upd y) = net_amount db + s"
          using idneq by (simp add: upd_def yd)
        ultimately show ?thesis using val idu by metis
      qed
    next
      case other
      then have val: "net_amount y + netEffect [t] (?id y) = net_amount y"
        by (simp add: eff)
      have "upd y \<in> set ys'"
        unfolding in_ys' using y other by auto
      moreover have "upd y = y" using other by (simp add: upd_def)
      ultimately show ?thesis using val by metis
    qed
  qed
qed

lemma netEffect_append: "netEffect (ts @ us) u = netEffect ts u + netEffect us u"
  by (simp add: netEffect_def)

lemma cashFlowLoop_settles:
  assumes dist: "distinct (map SimplifiedBalance.user_id xs)"
    and pa: "\<forall>x\<in>set xs. paise (net_amount x)"
  shows "\<forall>t\<in>set (fst (cashFlowLoop [] xs)).
           from t \<in> SimplifiedBalance.user_id ` set xs \<and> to t \<in> SimplifiedBalance.user_id ` set xs"
    and "\<forall>b\<in>set xs.
           (\<exists>y\<in>set (snd (cashFlowLoop [] xs)).
               SimplifiedBalance.user_id y = SimplifiedBalance.user_id b
             \<and> net_amount y
                 = net_amount b + netEffect (fst (cashFlowLoop [] xs)) (SimplifiedBalance.user_id b))
         \<or> (SimplifiedBalance.user_id b \<notin> SimplifiedBalance.user_id ` set (snd (cashFlowLoop [] xs))
             \<and> \<bar>net_amount b + netEffect (fst (cashFlowLoop [] xs)) (SimplifiedBalance.user_id b)\<bar>
                   \<le> 1 / 100)"
    and "distinct (map SimplifiedBalance.user_id (snd (cashFlowLoop [] xs)))"
    and "SimplifiedBalance.user_id ` set (snd (cashFlowLoop [] xs))
           \<subseteq> SimplifiedBalance.user_id ` set xs"
proof -
  let ?id = "SimplifiedBalance.user_id"
  define P where "P = (\<lambda>(txs :: DebtFlow list) (ys :: SimplifiedBalance list).
      distinct (map ?id ys) \<and> (\<forall>y\<in>set ys. paise (net_amount y))
    \<and> ?id ` set ys \<subseteq> ?id ` set xs
    \<and> (\<forall>t\<in>set txs. from t \<in> ?id ` set xs \<and> to t \<in> ?id ` set xs)
    \<and> (\<forall>b\<in>set xs.
           (\<exists>y\<in>set ys. ?id y = ?id b \<and> net_amount y = net_amount b + netEffect txs (?id b))
         \<or> (?id b \<notin> ?id ` set ys \<and> \<bar>net_amount b + netEffect txs (?id b)\<bar> \<le> 1 / 100)))"
  have "P (fst (cashFlowLoop [] xs)) (snd (cashFlowLoop [] xs))"
  proof (rule cashFlowLoop_invariant)
    show "P [] xs"
      unfolding P_def using dist pa by auto
  next
    fix txs :: "DebtFlow list" and ys :: "SimplifiedBalance list" and t ys'
    assume inv: "P txs ys" and long: "1 < length ys" and st: "settleStep ys = Some (t, ys')"
    from long have ne: "ys \<noteq> []" by auto
    from inv have d: "distinct (map ?id ys)" and p: "\<forall>y\<in>set ys. paise (net_amount y)"
      and sub: "?id ` set ys \<subseteq> ?id ` set xs"
      and tx: "\<forall>t\<in>set txs. from t \<in> ?id ` set xs \<and> to t \<in> ?id ` set xs"
      and main: "\<forall>b\<in>set xs.
           (\<exists>y\<in>set ys. ?id y = ?id b \<and> net_amount y = net_amount b + netEffect txs (?id b))
         \<or> (?id b \<notin> ?id ` set ys \<and> \<bar>net_amount b + netEffect txs (?id b)\<bar> \<le> 1 / 100)"
      unfolding P_def by blast+
    note ids = settleStep_ids [OF ne st d]
    note stl = settleStep_settles [OF ne st d p]
    have sub': "?id ` set ys' \<subseteq> ?id ` set ys" using ids(2) by simp
    have ft: "from t \<in> ?id ` set ys" "to t \<in> ?id ` set ys" using ids(4,5) by simp_all
    have main': "(\<exists>y\<in>set ys'. ?id y = ?id b
                     \<and> net_amount y = net_amount b + netEffect (txs @ [t]) (?id b))
         \<or> (?id b \<notin> ?id ` set ys' \<and> \<bar>net_amount b + netEffect (txs @ [t]) (?id b)\<bar> \<le> 1 / 100)"
      if b: "b \<in> set xs" for b
    proof -
      from main b consider
        (active) y where "y \<in> set ys" "?id y = ?id b"
                         "net_amount y = net_amount b + netEffect txs (?id b)"
      | (settled) "?id b \<notin> ?id ` set ys" "\<bar>net_amount b + netEffect txs (?id b)\<bar> \<le> 1 / 100"
        by blast
      then show ?thesis
      proof cases
        case active
        have eq: "net_amount y + netEffect [t] (?id y)
                    = net_amount b + netEffect (txs @ [t]) (?id b)"
          using active(2,3) by (simp add: netEffect_append)
        from stl(2) active(1) have
          "(\<exists>z\<in>set ys'. ?id z = ?id y \<and> net_amount z = net_amount y + netEffect [t] (?id y))
         \<or> (?id y \<notin> ?id ` set ys' \<and> \<bar>net_amount y + netEffect [t] (?id y)\<bar> \<le> 1 / 100)"
          by blast
        then show ?thesis using eq active(2) by metis
      next
        case settled
        have "from t \<noteq> ?id b" "to t \<noteq> ?id b" using ft settled(1) by auto
        then have "netEffect [t] (?id b) = 0" by (simp add: netEffect_Cons)
        then have "netEffect (txs @ [t]) (?id b) = netEffect txs (?id b)"
          by (simp add: netEffect_append)
        moreover have "?id b \<notin> ?id ` set ys'" using settled(1) sub' by blast
        ultimately show ?thesis using settled(2) by simp
      qed
    qed
    have s1: "?id ` set ys' \<subseteq> ?id ` set xs" using sub sub' by (rule order_trans [rotated])
    have s2: "\<forall>u\<in>set (txs @ [t]). from u \<in> ?id ` set xs \<and> to u \<in> ?id ` set xs"
      using tx ft sub by auto
    have s3: "\<forall>b\<in>set xs.
           (\<exists>y\<in>set ys'. ?id y = ?id b
               \<and> net_amount y = net_amount b + netEffect (txs @ [t]) (?id b))
         \<or> (?id b \<notin> ?id ` set ys'
               \<and> \<bar>net_amount b + netEffect (txs @ [t]) (?id b)\<bar> \<le> 1 / 100)"
      using main' by blast
    show "P (txs @ [t]) ys'"
      unfolding P_def using ids(1) stl(1) s1 s2 s3 by blast
  qed
  then show "\<forall>t\<in>set (fst (cashFlowLoop [] xs)).
           from t \<in> ?id ` set xs \<and> to t \<in> ?id ` set xs"
    and "\<forall>b\<in>set xs.
           (\<exists>y\<in>set (snd (cashFlowLoop [] xs)). ?id y = ?id b
             \<and> net_amount y = net_amount b + netEffect (fst (cashFlowLoop [] xs)) (?id b))
         \<or> (?id b \<notin> ?id ` set (snd (cashFlowLoop [] xs))
             \<and> \<bar>net_amount b + netEffect (fst (cashFlowLoop [] xs)) (?id b)\<bar> \<le> 1 / 100)"
    and "distinct (map ?id (snd (cashFlowLoop [] xs)))"
    and "?id ` set (snd (cashFlowLoop [] xs)) \<subseteq> ?id ` set xs"
    unfolding P_def by blast+
qed

lemma calculateMinCashFlow_loop:
  "calculateMinCashFlow balances = fst (cashFlowLoop [] (nonZeroOf balances))"
proof (cases "nonZeroOf balances = []")
  case True
  then show ?thesis
    by (simp add: calculateMinCashFlow_def cashFlowLoop.simps [of "[]" "[]"])
next
  case False
  then have "balances \<noteq> []" by (auto simp: nonZeroOf_def)
  with False show ?thesis by (simp add: calculateMinCashFlow_def)
qed

lemma applied_plan_residuals:
  assumes "distinct (map SimplifiedBalance.user_id balances)"
    and "\<forall>b\<in>set balances. paise (net_amount b)"
  shows "\<forall>b\<in>set (applyTransactions (calculateMinCashFlow balances) balances).
           (SimplifiedBalance.user_id b
              \<notin> SimplifiedBalance.user_id ` set (snd (cashFlowLoop [] (nonZeroOf balances)))
            \<longrightarrow> \<bar>net_amount b\<bar> \<le> 1 / 100)
         \<and> (\<forall>y\<in>set (snd (cashFlowLoop [] (nonZeroOf balances))).
               SimplifiedBalance.user_id y = SimplifiedBalance.user_id b
               \<longrightarrow> net_amount b = net_amount y)"
proof
  let ?id = "SimplifiedBalance.user_id"
  let ?nz = "nonZeroOf balances"
  let ?plan = "fst (cashFlowLoop [] ?nz)"
  let ?rest = "snd (cashFlowLoop [] ?nz)"
  fix b assume "b \<in> set (applyTransactions (calculateMinCashFlow balances) balances)"
  then obtain b0 where b0: "b0 \<in> set balances"
    and b: "b = b0\<lparr>net_amount := net_amount b0 + netEffect ?plan (?id b0)\<rparr>"
    unfolding calculateMinCashFlow_loop applyTransactions_netEffect by auto
  have idb: "?id b = ?id b0" and netb: "net_amount b = net_amount b0 + netEffect ?plan (?id b0)"
    by (simp_all add: b)
  have dnz: "distinct (map ?id ?nz)"
    unfolding nonZeroOf_def using assms(1) by (rule distinct_map_filter)
  have pnz: "\<forall>x\<in>set ?nz. paise (net_amount x)"
    using assms(2) by (simp add: nonZeroOf_def)
  note loop = cashFlowLoop_settles [OF dnz pnz]
  show "(?id b \<notin> ?id ` set ?rest \<longrightarrow> \<bar>net_amount b\<bar> \<le> 1 / 100)
      \<and> (\<forall>y\<in>set ?rest. ?id y = ?id b \<longrightarrow> net_amount b = net_amount y)"
  proof (cases "b0 \<in> set ?nz")
    case True
    with loop(2) consider
      (active) y where "y \<in> set ?rest" "?id y = ?id b0"
                       "net_amount y = net_amount b0 + netEffect ?plan (?id b0)"
    | (settled) "?id b0 \<notin> ?id ` set ?rest"
                "\<bar>net_amount b0 + netEffect ?plan (?id b0)\<bar> \<le> 1 / 100"
      by blast
    then show ?thesis
    proof cases
      case active
      have "net_amount b = net_amount y'" if "y' \<in> set ?rest" "?id y' = ?id b" for y'
      proof -
        have "y' = y"
          using distinct_key_unique [OF loop(3) that(1) active(1)] that(2) active(2) idb by simp
        then show ?thesis using active(3) netb by simp
      qed
      moreover have "?id b \<in> ?id ` set ?rest" using active(1,2) idb by (metis imageI)
      ultimately show ?thesis by blast
    next
      case settled
      then show ?thesis unfolding idb netb by (metis imageI)
    qed
  next
    case False
    with b0 have small: "\<bar>net_amount b0\<bar> \<le> 1 / 100" by (simp add: nonZeroOf_def)
    have notin: "?id b0 \<notin> ?id ` set ?nz"
    proof
      assume "?id b0 \<in> ?id ` set ?nz"
      then obtain x where x: "x \<in> set ?nz" "?id x = ?id b0" by auto
      then have "x \<in> set balances" by (simp add: nonZeroOf_def)
      then have "x = b0" using distinct_key_unique [OF assms(1) _ b0] x(2) by simp
      with x(1) False show False by simp
    qed
    have "\<forall>t\<in>set ?plan. from t \<noteq> ?id b0 \<and> to t \<noteq> ?id b0"
      using loop(1) notin by metis
    then have "netEffect ?plan (?id b0) = 0" by (rule netEffect_outside)
    then have "\<bar>net_amount b\<bar> \<le> 1 / 100" using small netb by simp
    moreover have "?id b \<notin> ?id ` set ?rest" using notin loop(4) idb by auto
    ultimately show ?thesis by (metis imageI)
  qed
qed

lemma settleStep_keeps_active:
  assumes ne: "ys \<noteq> []" and st: "settleStep ys = Some (t, ys')"
    and dist: "distinct (map SimplifiedBalance.user_id ys)"
    and act: "\<forall>y\<in>set ys. \<bar>net_amount y\<bar> > 1 / 100"
  shows "\<forall>z\<in>set ys'. \<bar>net_amount z\<bar> > 1 / 100"
proof
  let ?id = "SimplifiedBalance.user_id"
  fix z assume z: "z \<in> set ys'"
  from ne st dist obtain cr db s where
    mem: "cr \<in> set ys" "db \<in> set ys" and idneq: "?id cr \<noteq> ?id db"
    and cd: "net_amount cr > 1 / 100" "net_amount db < - (1 / 100)"
    and s: "s = min (net_amount cr) (- net_amount db)"
    and t: "t = \<lparr>from = ?id db, to = ?id cr, DebtFlow.amount = round2 s,
                  fromName = Some (user_name db), toName = Some (user_name cr)\<rparr>"
    and ys': "ys' = filter (\<lambda>b. (\<bar>net_amount db + s\<bar> \<le> 1 / 100 \<longrightarrow> ?id b \<noteq> ?id db))
            (filter (\<lambda>b. (\<bar>net_amount cr - s\<bar> \<le> 1 / 100 \<longrightarrow> ?id b \<noteq> ?id cr))
              (map (\<lambda>b. if ?id b = ?id cr then b\<lparr>net_amount := net_amount cr - s\<rparr>
                         else if ?id b = ?id db then b\<lparr>net_amount := net_amount db + s\<rparr>
                         else b) ys))"
    by (rule settleStep_by_id)
  define upd where "upd = (\<lambda>b :: SimplifiedBalance.
      if ?id b = ?id cr then b\<lparr>net_amount := net_amount cr - s\<rparr>
      else if ?id b = ?id db then b\<lparr>net_amount := net_amount db + s\<rparr> else b)"
  have idu: "?id (upd y) = ?id y" for y by (simp add: upd_def)
  from z obtain y where y: "y \<in> set ys" "z = upd y"
    and k1: "\<bar>net_amount cr - s\<bar> \<le> 1 / 100 \<longrightarrow> ?id z \<noteq> ?id cr"
    and k2: "\<bar>net_amount db + s\<bar> \<le> 1 / 100 \<longrightarrow> ?id z \<noteq> ?id db"
    unfolding ys' upd_def by auto
  consider (cr) "?id y = ?id cr" | (db) "?id y \<noteq> ?id cr" "?id y = ?id db"
    | (other) "?id y \<noteq> ?id cr" "?id y \<noteq> ?id db"
    by blast
  then show "\<bar>net_amount z\<bar> > 1 / 100"
  proof cases
    case cr
    then have "net_amount z = net_amount cr - s" by (simp add: y(2) upd_def)
    moreover have "\<not> \<bar>net_amount cr - s\<bar> \<le> 1 / 100" using k1 cr idu y(2) by auto
    ultimately show ?thesis by simp
  next
    case db
    then have "net_amount z = net_amount db + s" by (simp add: y(2) upd_def)
    moreover have "\<not> \<bar>net_amount db + s\<bar> \<le> 1 / 100" using k2 db idu y(2) by auto
    ultimately show ?thesis by simp
  next
    case other
    then have "z = y" by (simp add: y(2) upd_def)
    then show ?thesis using act y(1) by simp
  qed
qed

lemma cashFlowLoop_stops:
  "length (snd (cashFlowLoop transactions xs)) \<le> 1
   \<or> settleStep (snd (cashFlowLoop transactions xs)) = None"
proof (induction transactions xs rule: cashFlowLoop.induct)
  case (1 txs nz)
  show ?case
  proof (cases "length nz > 1")
    case False
    then show ?thesis by (simp add: cashFlowLoop.simps [of txs nz])
  next
    case long: True
    show ?thesis
    proof (cases "settleStep nz")
      case None
      with long show ?thesis by (simp add: cashFlowLoop.simps [of txs nz])
    next
      case (Some p)
      obtain t rest where p: "p = (t, rest)" by (cases p)
      have "cashFlowLoop txs nz = cashFlowLoop (txs @ [t]) rest"
        using long Some p by (simp add: cashFlowLoop.simps [of txs nz])
      then show ?thesis using "1.IH" [OF long Some p [symmetric]] by simp
    qed
  qed
qed

lemma settleStep_None_one_sign:
  assumes ne: "xs \<noteq> []" and none: "settleStep xs = None"
    and act: "\<forall>y\<in>set xs. \<bar>net_amount y\<bar> > 1 / 100"
  shows "(\<forall>y\<in>set xs. net_amount y > 1 / 100) \<or> (\<forall>y\<in>set xs. net_amount y < - (1 / 100))"
proof -
  from none have "net_amount (xs ! maxCreditorIndex xs) \<le> 1 / 100
                  \<or> net_amount (xs ! maxDebtorIndex xs) \<ge> - (1 / 100)"
    unfolding settleStep_def Let_def by (auto split: if_splits)
  then show ?thesis
  proof
    assume top: "net_amount (xs ! maxCreditorIndex xs) \<le> 1 / 100"
    have "net_amount y < - (1 / 100)" if "y \<in> set xs" for y
    proof -
      from that obtain j where "j < length xs" "xs ! j = y" by (auto simp: in_set_conv_nth)
      then have "net_amount y \<le> 1 / 100"
        using maxCreditorIndex_first(2) [OF ne] top by fastforce
      with act that show ?thesis by fastforce
    qed
    then show ?thesis by blast
  next
    assume bot: "net_amount (xs ! maxDebtorIndex xs) \<ge> - (1 / 100)"
    have "net_amount y > 1 / 100" if "y \<in> set xs" for y
    proof -
      from that obtain j where "j < length xs" "xs ! j = y" by (auto simp: in_set_conv_nth)
      then have "net_amount y \<ge> - (1 / 100)"
        using maxDebtorIndex_first(2) [OF ne] bot by fastforce
      with act that show ?thesis by fastforce
    qed
    then show ?thesis by blast
  qed
qed

lemma cashFlowLoop_active:
  assumes "distinct (map SimplifiedBalance.user_id xs)"
    and "\<forall>y\<in>set xs. \<bar>net_amount y\<bar> > 1 / 100"
  shows "\<forall>y\<in>set (snd (cashFlowLoop [] xs)). \<bar>net_amount y\<bar> > 1 / 100"
proof -
  have "(\<lambda>(txs :: DebtFlow list) ys.
           distinct (map SimplifiedBalance.user_id ys) \<and> (\<forall>y\<in>set ys. \<bar>net_amount y\<bar> > 1 / 100))
          (fst (cashFlowLoop [] xs)) (snd (cashFlowLoop [] xs))"
  proof (rule cashFlowLoop_invariant)
    show "distinct (map SimplifiedBalance.user_id xs) \<and> (\<forall>y\<in>set xs. \<bar>net_amount y\<bar> > 1 / 100)"
      using assms by simp
  next
    fix txs :: "DebtFlow list" and ys :: "SimplifiedBalance list" and t ys'
    assume inv: "distinct (map SimplifiedBalance.user_id ys) \<and> (\<forall>y\<in>set ys. \<bar>net_amount y\<bar> > 1 / 100)"
      and long: "1 < length ys" and st: "settleStep ys = Some (t, ys')"
    from long have ne: "ys \<noteq> []" by auto
    from inv have d: "distinct (map SimplifiedBalance.user_id ys)"
      and a: "\<forall>y\<in>set ys. \<bar>net_amount y\<bar> > 1 / 100" by simp_all
    show "distinct (map SimplifiedBalance.user_id ys') \<and> (\<forall>y\<in>set ys'. \<bar>net_amount y\<bar> > 1 / 100)"
      using settleStep_ids(1) [OF ne st d] settleStep_keeps_active [OF ne st d a] by simp
  qed
  then show ?thesis by simp
qed

lemma sum_list_indicator:
  fixes a :: rat
  assumes "distinct (map f xs)" and "u \<in> f ` set xs"
  shows "sum_list (map (\<lambda>b. if f b = u then a else 0) xs) = a"
  using assms
proof (induction xs)
  case Nil
  then show ?case by simp
next
  case (Cons x xs)
  show ?case
  proof (cases "f x = u")
    case True
    then have "u \<notin> f ` set xs" using Cons.prems(1) by auto
    then have "\<forall>b\<in>set xs. f b \<noteq> u" by auto
    then have "map (\<lambda>b. if f b = u then a else 0) xs = map (\<lambda>b. 0) xs"
      by (intro map_cong refl) simp
    then have "sum_list (map (\<lambda>b. if f b = u then a else 0) xs) = 0"
      by (simp only: sum_list_0) 
    with True show ?thesis by simp
  next
    case False
    then have "u \<in> f ` set xs" using Cons.prems(2) by auto
    moreover have "distinct (map f xs)" using Cons.prems(1) by simp
    ultimately show ?thesis using Cons.IH False by simp
  qed
qed

lemma sum_netEffect_zero:
  assumes dist: "distinct (map SimplifiedBalance.user_id bs)"
    and inside: "\<forall>t\<in>set ts. from t \<in> SimplifiedBalance.user_id ` set bs
                          \<and> to t \<in> SimplifiedBalance.user_id ` set bs"
  shows "sum_list (map (\<lambda>b. netEffect ts (SimplifiedBalance.user_id b)) bs) = 0"
  using inside
proof (induction ts)
  case Nil
  show ?case by simp
next
  case (Cons t ts)
  let ?id = "SimplifiedBalance.user_id"
  from Cons.prems have f: "from t \<in> ?id ` set bs" and o: "to t \<in> ?id ` set bs"
    and rest: "\<forall>t\<in>set ts. from t \<in> ?id ` set bs \<and> to t \<in> ?id ` set bs"
    by simp_all
  have "sum_list (map (\<lambda>b. netEffect (t # ts) (?id b)) bs)
          = sum_list (map (\<lambda>b. if ?id b = from t then DebtFlow.amount t else 0) bs)
            - sum_list (map (\<lambda>b. if ?id b = to t then DebtFlow.amount t else 0) bs)
            + sum_list (map (\<lambda>b. netEffect ts (?id b)) bs)"
    by (simp add: netEffect_Cons sum_list_addf sum_list_subtractf eq_commute)
  also have "\<dots> = 0"
    using sum_list_indicator [OF dist f] sum_list_indicator [OF dist o] Cons.IH [OF rest]
    by simp
  finally show ?case .
qed

lemma sum_list_filter_split:
  fixes f :: "'a \<Rightarrow> rat"
  shows "sum_list (map f xs)
           = sum_list (map f (filter P xs)) + sum_list (map f (filter (\<lambda>x. \<not> P x) xs))"
  by (induction xs) simp_all

lemma sum_list_abs_bound:
  fixes f :: "'a \<Rightarrow> rat"
  assumes "\<forall>x\<in>set xs. \<bar>f x\<bar> \<le> c"
  shows "\<bar>sum_list (map f xs)\<bar> \<le> of_nat (length xs) * c"
  using assms
proof (induction xs)
  case Nil
  show ?case by simp
next
  case (Cons x xs)
  then have "\<bar>f x\<bar> \<le> c" and "\<bar>sum_list (map f xs)\<bar> \<le> of_nat (length xs) * c" by simp_all
  then have "\<bar>f x + sum_list (map f xs)\<bar> \<le> c + of_nat (length xs) * c" by linarith
  then show ?case by (simp add: algebra_simps)
qed

lemma sum_list_abs_pos:
  fixes f :: "'a \<Rightarrow> rat"
  assumes "\<forall>x\<in>set xs. f x > 0"
  shows "sum_list (map (\<lambda>x. \<bar>f x\<bar>) xs) = \<bar>sum_list (map f xs)\<bar>"
proof -
  have "sum_list (map (\<lambda>x. \<bar>f x\<bar>) xs) = sum_list (map f xs) \<and> 0 \<le> sum_list (map f xs)"
    using assms by (induction xs) auto
  then show ?thesis by simp
qed

lemma sum_list_abs_neg:
  fixes f :: "'a \<Rightarrow> rat"
  assumes "\<forall>x\<in>set xs. f x < 0"
  shows "sum_list (map (\<lambda>x. \<bar>f x\<bar>) xs) = \<bar>sum_list (map f xs)\<bar>"
proof -
  have "sum_list (map (\<lambda>x. \<bar>f x\<bar>) xs) = - sum_list (map f xs) \<and> sum_list (map f xs) \<le> 0"
    using assms by (induction xs) auto
  then show ?thesis by simp
qed

lemma sum_list_abs_short:
  fixes f :: "'a \<Rightarrow> rat"
  assumes "length xs \<le> 1"
  shows "sum_list (map (\<lambda>x. \<bar>f x\<bar>) xs) = \<bar>sum_list (map f xs)\<bar>"
proof (cases xs)
  case Nil
  then show ?thesis by simp
next
  case (Cons x ys)
  with assms have "ys = []" by simp
  with Cons show ?thesis by simp
qed

lemma user_ids_applyTransactions:
  "map SimplifiedBalance.user_id (applyTransactions ts bs) = map SimplifiedBalance.user_id bs"
  by (simp add: applyTransactions_netEffect comp_def)

lemma sum_afterPlan:
  assumes dist: "distinct (map SimplifiedBalance.user_id balances)"
    and pa: "\<forall>b\<in>set balances. paise (net_amount b)"
  shows "sum_list (map net_amount (afterPlan balances)) = sum_list (map net_amount balances)"
proof -
  let ?id = "SimplifiedBalance.user_id"
  let ?nz = "nonZeroOf balances"
  let ?plan = "fst (cashFlowLoop [] ?nz)"
  have dnz: "distinct (map ?id ?nz)"
    unfolding nonZeroOf_def using dist by (rule distinct_map_filter)
  have pnz: "\<forall>x\<in>set ?nz. paise (net_amount x)"
    using pa by (simp add: nonZeroOf_def)
  have "?id ` set ?nz \<subseteq> ?id ` set balances" by (auto simp: nonZeroOf_def)
  with cashFlowLoop_settles(1) [OF dnz pnz]
  have inside: "\<forall>t\<in>set ?plan. from t \<in> ?id ` set balances \<and> to t \<in> ?id ` set balances"
    by blast
  have "map net_amount (afterPlan balances)
          = map (\<lambda>b. net_amount b + netEffect ?plan (?id b)) balances"
    by (simp add: afterPlan_def calculateMinCashFlow_loop applyTransactions_netEffect comp_def)
  then have "sum_list (map net_amount (afterPlan balances))
          = sum_list (map net_amount balances)
            + sum_list (map (\<lambda>b. netEffect ?plan (?id b)) balances)"
    by (simp add: sum_list_addf)
  then show ?thesis using sum_netEffect_zero [OF dist inside] by simp
qed

lemma unsettled_one_sign:
  assumes dist: "distinct (map SimplifiedBalance.user_id balances)"
    and pa: "\<forall>b\<in>set balances. paise (net_amount b)"
  shows "length (nonZeroOf (afterPlan balances)) \<le> 1
       \<or> (\<forall>b\<in>set (nonZeroOf (afterPlan balances)). 0 < net_amount b)
       \<or> (\<forall>b\<in>set (nonZeroOf (afterPlan balances)). net_amount b < 0)"
proof -
  let ?id = "SimplifiedBalance.user_id"
  let ?nz = "nonZeroOf balances"
  let ?rest = "snd (cashFlowLoop [] ?nz)"
  let ?U = "nonZeroOf (afterPlan balances)"
  have dnz: "distinct (map ?id ?nz)"
    unfolding nonZeroOf_def using dist by (rule distinct_map_filter)
  have anz: "\<forall>y\<in>set ?nz. \<bar>net_amount y\<bar> > 1 / 100" by (simp add: nonZeroOf_def)
  have act: "\<forall>y\<in>set ?rest. \<bar>net_amount y\<bar> > 1 / 100"
    using dnz anz by (rule cashFlowLoop_active)
  note res = applied_plan_residuals [OF dist pa]
  have link: "\<exists>y\<in>set ?rest. ?id y = ?id b \<and> net_amount y = net_amount b" if "b \<in> set ?U" for b
  proof -
    from that have b: "b \<in> set (applyTransactions (calculateMinCashFlow balances) balances)"
      and big: "\<bar>net_amount b\<bar> > 1 / 100"
      by (simp_all add: nonZeroOf_def afterPlan_def)
    from res b big have "?id b \<in> ?id ` set ?rest" by fastforce
    then obtain y where y: "y \<in> set ?rest" "?id y = ?id b" by auto
    with res b have "net_amount b = net_amount y" by blast
    with y show ?thesis by auto
  qed
  have dU: "distinct (map ?id ?U)"
  proof -
    have "distinct (map ?id (afterPlan balances))"
      using dist by (simp add: afterPlan_def user_ids_applyTransactions)
    then show ?thesis unfolding nonZeroOf_def by (rule distinct_map_filter)
  qed
  from cashFlowLoop_stops [of "[]" ?nz] consider
    (short) "length ?rest \<le> 1" | (break) "?rest \<noteq> []" "settleStep ?rest = None"
    by fastforce
  then show ?thesis
  proof cases
    case short
    have "?id ` set ?U \<subseteq> ?id ` set ?rest"
    proof
      fix u assume "u \<in> ?id ` set ?U"
      then obtain b where "b \<in> set ?U" "u = ?id b" by auto
      with link [of b] show "u \<in> ?id ` set ?rest" by (metis imageI)
    qed
    then have "card (?id ` set ?U) \<le> card (?id ` set ?rest)"
      by (intro card_mono) simp_all
    also have "\<dots> \<le> length ?rest"
      by (metis card_length length_map set_map)
    finally have "card (?id ` set ?U) \<le> 1" using short by simp
    moreover have "card (?id ` set ?U) = length ?U"
      using distinct_card [OF dU] by simp
    ultimately show ?thesis by simp
  next
    case break
    from settleStep_None_one_sign [OF break act]
    show ?thesis
    proof
      assume "\<forall>y\<in>set ?rest. net_amount y > 1 / 100"
      then have "\<forall>b\<in>set ?U. 0 < net_amount b" using link by fastforce
      then show ?thesis by blast
    next
      assume "\<forall>y\<in>set ?rest. net_amount y < - (1 / 100)"
      then have "\<forall>b\<in>set ?U. net_amount b < 0" using link by fastforce
      then show ?thesis by blast
    qed
  qed
qed

text \<open>
  Claim C2 (amended). For a balance list with pairwise distinct user ids and amounts in
  whole paise, applying the plan keeps the sum of the balances and leaves no creditor and
  debtor beyond 0.01 side by side: the members whose balance is not within 0.01 of zero
  are at most one, or all are owed money, or all owe money. When the original balances sum
  to zero, the amounts left beyond 0.01 add up to at most 0.01 for each member that is
  within 0.01 of zero.
\<close>

theorem calculateMinCashFlow_settles:
  assumes "distinct (map SimplifiedBalance.user_id balances)"
    and "\<forall>b\<in>set balances. paise (net_amount b)"
  shows "sum_list (map net_amount (afterPlan balances)) = sum_list (map net_amount balances)
       \<and> (length (nonZeroOf (afterPlan balances)) \<le> 1
          \<or> (\<forall>b\<in>set (nonZeroOf (afterPlan balances)). 0 < net_amount b)
          \<or> (\<forall>b\<in>set (nonZeroOf (afterPlan balances)). net_amount b < 0))
       \<and> (sum_list (map net_amount balances) = 0
          \<longrightarrow> sum_list (map (\<lambda>b. \<bar>net_amount b\<bar>) (nonZeroOf (afterPlan balances)))
                \<le> of_nat (length (filter (\<lambda>b. \<bar>net_amount b\<bar> \<le> 1 / 100) (afterPlan balances)))
                    / 100)"
proof (intro conjI impI)
  let ?after = "afterPlan balances"
  let ?U = "nonZeroOf ?after"
  let ?S = "filter (\<lambda>b. \<bar>net_amount b\<bar> \<le> 1 / 100) ?after"
  show total: "sum_list (map net_amount ?after) = sum_list (map net_amount balances)"
    using assms by (rule sum_afterPlan)
  show sign: "length ?U \<le> 1 \<or> (\<forall>b\<in>set ?U. 0 < net_amount b) \<or> (\<forall>b\<in>set ?U. net_amount b < 0)"
    using assms by (rule unsettled_one_sign)
  assume zero: "sum_list (map net_amount balances) = 0"
  have S: "?S = filter (\<lambda>b. \<not> \<bar>net_amount b\<bar> > 1 / 100) ?after"
    by (intro filter_cong refl) auto
  have "sum_list (map net_amount ?after)
          = sum_list (map net_amount ?U) + sum_list (map net_amount ?S)"
    unfolding S nonZeroOf_def by (rule sum_list_filter_split)
  with total zero have "sum_list (map net_amount ?U) = - sum_list (map net_amount ?S)"
    by simp
  then have "\<bar>sum_list (map net_amount ?U)\<bar> = \<bar>sum_list (map net_amount ?S)\<bar>" by simp
  also have "\<dots> \<le> of_nat (length ?S) * (1 / 100)"
    by (rule sum_list_abs_bound) simp
  finally have bound: "\<bar>sum_list (map net_amount ?U)\<bar> \<le> of_nat (length ?S) / 100" by simp
  have "sum_list (map (\<lambda>b. \<bar>net_amount b\<bar>) ?U) = \<bar>sum_list (map net_amount ?U)\<bar>"
    using sign sum_list_abs_short [of ?U net_amount] sum_list_abs_pos [of ?U net_amount]
      sum_list_abs_neg [of ?U net_amount]
    by blast
  with bound show "sum_list (map (\<lambda>b. \<bar>net_amount b\<bar>) ?U) \<le> of_nat (length ?S) / 100"
    by simp
qed

theorem calculateMinCashFlow_settles_witness:
  "calculateMinCashFlow
     [\<lparr>SimplifiedBalance.user_id = ''A'', user_name = ''Asha'', net_amount = 1 / 20\<rparr>,
      \<lparr>SimplifiedBalance.user_id = ''B'', user_name = ''Bala'', net_amount = - (3 / 100)\<rparr>,
      \<lparr>SimplifiedBalance.user_id = ''C'', user_name = ''Chitra'', net_amount = - (1 / 100)\<rparr>,
      \<lparr>SimplifiedBalance.user_id = ''D'', user_name = ''Dev'', net_amount = - (1 / 100)\<rparr>]
   = [\<lparr>from = ''B'', to = ''A'', DebtFlow.amount = 3 / 100, fromName = Some ''Bala'',
        toName = Some ''Asha''\<rparr>]
   \<and> afterPlan
     [\<lparr>SimplifiedBalance.user_id = ''A'', user_name = ''Asha'', net_amount = 1 / 20\<rparr>,
      \<lparr>SimplifiedBalance.user_id = ''B'', user_name = ''Bala'', net_amount = - (3 / 100)\<rparr>,
      \<lparr>SimplifiedBalance.user_id = ''C'', user_name = ''Chitra'', net_amount = - (1 / 100)\<rparr>,
      \<lparr>SimplifiedBalance.user_id = ''D'', user_name = ''Dev'', net_amount = - (1 / 100)\<rparr>]
   = [\<lparr>SimplifiedBalance.user_id = ''A'', user_name = ''Asha'', net_amount = 1 / 50\<rparr>,
      \<lparr>SimplifiedBalance.user_id = ''B'', user_name = ''Bala'', net_amount = 0\<rparr>,
      \<lparr>SimplifiedBalance.user_id = ''C'', user_name = ''Chitra'', net_amount = - (1 / 100)\<rparr>,
      \<lparr>SimplifiedBalance.user_id = ''D'', user_name = ''Dev'', net_amount = - (1 / 100)\<rparr>]
   \<and> length (nonZeroOf (afterPlan
     [\<lparr>SimplifiedBalance.user_id = ''A'', user_name = ''Asha'', net_amount = 1 / 20\<rparr>,
      \<lparr>SimplifiedBalance.user_id = ''B'', user_name = ''Bala'', net_amount = - (3 / 100)\<rparr>,
      \<lparr>SimplifiedBalance.user_id = ''C'', user_name = ''Chitra'', net_amount = - (1 / 100)\<rparr>,
      \<lparr>SimplifiedBalance.user_id = ''D'', user_name = ''Dev'', net_amount = - (1 / 100)\<rparr>])) = 1
   \<and> sum_list (map (\<lambda>b. \<bar>net_amount b\<bar>) (nonZeroOf (afterPlan
     [\<lparr>SimplifiedBalance.user_id = ''A'', user_name = ''Asha'', net_amount = 1 / 20\<rparr>,
      \<lparr>SimplifiedBalance.user_id = ''B'', user_name = ''Bala'', net_amount = - (3 / 100)\<rparr>,
      \<lparr>SimplifiedBalance.user_id = ''C'', user_name = ''Chitra'', net_amount = - (1 / 100)\<rparr>,
      \<lparr>SimplifiedBalance.user_id = ''D'', user_name = ''Dev'', net_amount = - (1 / 100)\<rparr>])))
     \<le> 3 / 100"
proof -
  let ?bs = "[\<lparr>SimplifiedBalance.user_id = ''A'', user_name = ''Asha'', net_amount = 1 / 20\<rparr>,
      \<lparr>SimplifiedBalance.user_id = ''B'', user_name = ''Bala'', net_amount = - (3 / 100)\<rparr>,
      \<lparr>SimplifiedBalance.user_id = ''C'', user_name = ''Chitra'', net_amount = - (1 / 100)\<rparr>,
      \<lparr>SimplifiedBalance.user_id = ''D'', user_name = ''Dev'', net_amount = - (1 / 100)\<rparr>]"
  have d: "distinct (map SimplifiedBalance.user_id ?bs)" by simp
  have p: "\<forall>b\<in>set ?bs. paise (net_amount b)" by code_simp
  have z: "sum_list (map net_amount ?bs) = 0" by simp
  have plan: "calculateMinCashFlow ?bs
   = [\<lparr>from = ''B'', to = ''A'', DebtFlow.amount = 3 / 100, fromName = Some ''Bala'',
        toName = Some ''Asha''\<rparr>]"
    by code_simp
  have after: "afterPlan ?bs
   = [\<lparr>SimplifiedBalance.user_id = ''A'', user_name = ''Asha'', net_amount = 1 / 50\<rparr>,
      \<lparr>SimplifiedBalance.user_id = ''B'', user_name = ''Bala'', net_amount = 0\<rparr>,
      \<lparr>SimplifiedBalance.user_id = ''C'', user_name = ''Chitra'', net_amount = - (1 / 100)\<rparr>,
      \<lparr>SimplifiedBalance.user_id = ''D'', user_name = ''Dev'', net_amount = - (1 / 100)\<rparr>]"
    by code_simp
  have len: "length (nonZeroOf (afterPlan ?bs)) = 1" by code_simp
  have n: "length (filter (\<lambda>b. \<bar>net_amount b\<bar> \<le> 1 / 100) (afterPlan ?bs)) = 3" by code_simp
  from calculateMinCashFlow_settles [OF d p] z
  have "sum_list (map (\<lambda>b. \<bar>net_amount b\<bar>) (nonZeroOf (afterPlan ?bs)))
          \<le> of_nat (length (filter (\<lambda>b. \<bar>net_amount b\<bar> \<le> 1 / 100) (afterPlan ?bs))) / 100"
    by blast
  then have "sum_list (map (\<lambda>b. \<bar>net_amount b\<bar>) (nonZeroOf (afterPlan ?bs))) \<le> 3 / 100"
    unfolding n by simp
  with plan after len show ?thesis by blast
qed

theorem calculateMinCashFlow_settles_counterexample:
  "applyTransactions
     (calculateMinCashFlow
       [\<lparr>SimplifiedBalance.user_id = ''A'', user_name = ''Asha'', net_amount = 3 / 100\<rparr>,
        \<lparr>SimplifiedBalance.user_id = ''B'', user_name = ''Bala'', net_amount = - (1 / 100)\<rparr>,
        \<lparr>SimplifiedBalance.user_id = ''C'', user_name = ''Chitra'', net_amount = - (1 / 100)\<rparr>,
        \<lparr>SimplifiedBalance.user_id = ''D'', user_name = ''Dev'', net_amount = - (1 / 100)\<rparr>])
     [\<lparr>SimplifiedBalance.user_id = ''A'', user_name = ''Asha'', net_amount = 3 / 100\<rparr>,
      \<lparr>SimplifiedBalance.user_id = ''B'', user_name = ''Bala'', net_amount = - (1 / 100)\<rparr>,
      \<lparr>SimplifiedBalance.user_id = ''C'', user_name = ''Chitra'', net_amount = - (1 / 100)\<rparr>,
      \<lparr>SimplifiedBalance.user_id = ''D'', user_name = ''Dev'', net_amount = - (1 / 100)\<rparr>]
   = [\<lparr>SimplifiedBalance.user_id = ''A'', user_name = ''Asha'', net_amount = 3 / 100\<rparr>,
      \<lparr>SimplifiedBalance.user_id = ''B'', user_name = ''Bala'', net_amount = - (1 / 100)\<rparr>,
      \<lparr>SimplifiedBalance.user_id = ''C'', user_name = ''Chitra'', net_amount = - (1 / 100)\<rparr>,
      \<lparr>SimplifiedBalance.user_id = ''D'', user_name = ''Dev'', net_amount = - (1 / 100)\<rparr>]
   \<and> \<not> \<bar>3 / 100 :: rat\<bar> \<le> 1 / 100
   \<and> (3 / 100 - 1 / 100 - 1 / 100 - 1 / 100 :: rat) = 0"
  by code_simp

section \<open>The builder\<close>

lemma processSplits_obligations:
  "processSplits paidBy balanceMap ss
     = foldl (\<lambda>m ob. netObligation m (debtor ob) (creditor ob) (PairwiseObligation.amount ob))
         balanceMap
         (map (\<lambda>s. \<lparr>debtor = ExpenseSplit.user_id s, creditor = paidBy,
                     PairwiseObligation.amount = share_amount s\<rparr>)
              (filter (\<lambda>s. ExpenseSplit.user_id s \<noteq> paidBy) ss))"
  by (induction ss arbitrary: balanceMap) (simp_all add: netSplit_def)

lemma processExpenses_fold_build:
  "processExpenses balanceMap expenses
     = foldl (\<lambda>m ob. netObligation m (debtor ob) (creditor ob) (PairwiseObligation.amount ob))
         balanceMap (build expenses)"
proof (induction expenses arbitrary: balanceMap)
  case Nil
  show ?case by (simp add: build_def)
next
  case (Cons expense expenses)
  show ?case
  proof (cases "splits expense")
    case None
    then show ?thesis
      using Cons.IH [of balanceMap] by (simp add: build_def obligationsOf_def)
  next
    case (Some ss)
    then show ?thesis
      using Cons.IH [of "processSplits (paid_by expense) balanceMap ss"]
      by (simp add: build_def obligationsOf_def processSplits_obligations)
  qed
qed

lemma obligationsOf_withoutOwnSplits: "obligationsOf (withoutOwnSplits expense) = obligationsOf expense"
  by (cases "splits expense") (simp_all add: obligationsOf_def withoutOwnSplits_def)

lemma build_withoutOwnSplits: "build (map withoutOwnSplits expenses) = build expenses"
  by (induction expenses) (simp_all add: build_def obligationsOf_withoutOwnSplits)

text \<open>
  Claim C4. The loops of the builder net into the pair map exactly the obligations
  \<open>{debtor: split member, creditor: payer, amount: share}\<close> of the splits whose member is
  not the payer of their expense, one for each such split and in their order; the splits
  of the payer contribute nothing: removing them changes no balance.
\<close>

theorem processExpenses_obligations:
  "processExpenses balanceMap expenses
     = foldl (\<lambda>m ob. netObligation m (debtor ob) (creditor ob) (PairwiseObligation.amount ob))
         balanceMap (build expenses)
   \<and> processExpenses balanceMap (map withoutOwnSplits expenses)
     = processExpenses balanceMap expenses"
proof
  show "processExpenses balanceMap expenses
     = foldl (\<lambda>m ob. netObligation m (debtor ob) (creditor ob) (PairwiseObligation.amount ob))
         balanceMap (build expenses)"
    by (rule processExpenses_fold_build)
  have "processExpenses balanceMap (map withoutOwnSplits expenses)
     = foldl (\<lambda>m ob. netObligation m (debtor ob) (creditor ob) (PairwiseObligation.amount ob))
         balanceMap (build (map withoutOwnSplits expenses))"
    by (rule processExpenses_fold_build)
  also have "\<dots> = processExpenses balanceMap expenses"
    by (simp only: build_withoutOwnSplits processExpenses_fold_build)
  finally show "processExpenses balanceMap (map withoutOwnSplits expenses)
     = processExpenses balanceMap expenses" .
qed

theorem processExpenses_obligations_witness:
  "processExpenses []
     [\<lparr>Expense.group_id = ''g'', amount = 300, paid_by = ''A'',
       splits = Some [\<lparr>expense_id = ''e1'', ExpenseSplit.user_id = ''A'', share_amount = 100\<rparr>,
                      \<lparr>expense_id = ''e1'', ExpenseSplit.user_id = ''B'', share_amount = 100\<rparr>,
                      \<lparr>expense_id = ''e1'', ExpenseSplit.user_id = ''C'', share_amount = 100\<rparr>]\<rparr>]
   = [(''B:A'', 100), (''C:A'', 100)]
   \<and> build
     [\<lparr>Expense.group_id = ''g'', amount = 300, paid_by = ''A'',
       splits = Some [\<lparr>expense_id = ''e1'', ExpenseSplit.user_id = ''A'', share_amount = 100\<rparr>,
                      \<lparr>expense_id = ''e1'', ExpenseSplit.user_id = ''B'', share_amount = 100\<rparr>,
                      \<lparr>expense_id = ''e1'', ExpenseSplit.user_id = ''C'', share_amount = 100\<rparr>]\<rparr>]
   = [\<lparr>debtor = ''B'', creditor = ''A'', PairwiseObligation.amount = 100\<rparr>,
      \<lparr>debtor = ''C'', creditor = ''A'', PairwiseObligation.amount = 100\<rparr>]"
proof -
  let ?es = "[\<lparr>Expense.group_id = ''g'', amount = 300, paid_by = ''A'',
       splits = Some [\<lparr>expense_id = ''e1'', ExpenseSplit.user_id = ''A'', share_amount = 100\<rparr>,
                      \<lparr>expense_id = ''e1'', ExpenseSplit.user_id = ''B'', share_amount = 100\<rparr>,
                      \<lparr>expense_id = ''e1'', ExpenseSplit.user_id = ''C'', share_amount = 100\<rparr>]\<rparr>]"
  have b: "build ?es
   = [\<lparr>debtor = ''B'', creditor = ''A'', PairwiseObligation.amount = 100\<rparr>,
      \<lparr>debtor = ''C'', creditor = ''A'', PairwiseObligation.amount = 100\<rparr>]"
    by code_simp
  have "foldl (\<lambda>m ob. netObligation m (debtor ob) (creditor ob) (PairwiseObligation.amount ob)) []
     [\<lparr>debtor = ''B'', creditor = ''A'', PairwiseObligation.amount = 100\<rparr>,
      \<lparr>debtor = ''C'', creditor = ''A'', PairwiseObligation.amount = 100\<rparr>]
     = [(''B:A'', 100), (''C:A'', 100)]"
    by code_simp
  with processExpenses_obligations [of "[]" ?es] b show ?thesis by simp
qed

section \<open>No validation in the builder\<close>

lemma processExpenses_amount_update:
  "processExpenses balanceMap (map (\<lambda>e. e\<lparr>Expense.amount := newTotal e\<rparr>) expenses)
     = processExpenses balanceMap expenses"
  by (induction expenses arbitrary: balanceMap) (simp_all split: option.splits)

text \<open>
  Claim C7 (amended). \<open>getGroupBalances\<close> validates nothing: whenever the two reads of
  the record source succeed it returns a list of balances, whatever the shares and
  totals of the expenses are, and the totals are never consulted (replacing them leaves
  the result unchanged). It fails only when a read fails.
\<close>

theorem getGroupBalances_no_validation:
  assumes "getGroupExpenses groupId = Inr expenses"
    and "getGroupMembers groupId = Inr members"
  shows "getGroupBalances getGroupExpenses getGroupMembers groupId
           = Inr (toUserBalances groupId (memberMapOf [] members) (processExpenses [] expenses))
       \<and> getGroupBalances
            (\<lambda>g. Inr (map (\<lambda>e. e\<lparr>Expense.amount := newTotal e\<rparr>) expenses)) getGroupMembers groupId
           = getGroupBalances getGroupExpenses getGroupMembers groupId"
  using assms by (simp add: getGroupBalances_def processExpenses_amount_update)

theorem getGroupBalances_no_validation_witness:
  "getGroupBalances
     (\<lambda>g. Inr [\<lparr>Expense.group_id = ''g'', amount = 300, paid_by = ''A'',
       splits = Some [\<lparr>expense_id = ''e1'', ExpenseSplit.user_id = ''A'', share_amount = 100\<rparr>,
                      \<lparr>expense_id = ''e1'', ExpenseSplit.user_id = ''B'', share_amount = 100\<rparr>,
                      \<lparr>expense_id = ''e1'', ExpenseSplit.user_id = ''C'', share_amount = 100\<rparr>]\<rparr>])
     (\<lambda>g. Inr []) ''g''
   = Inr [\<lparr>UserBalance.group_id = ''g'', from_user = ''B'', to_user = ''A'', owes = 100,
           from_user_name = None, to_user_name = None\<rparr>,
          \<lparr>UserBalance.group_id = ''g'', from_user = ''C'', to_user = ''A'', owes = 100,
           from_user_name = None, to_user_name = None\<rparr>]"
proof -
  let ?es = "[\<lparr>Expense.group_id = ''g'', amount = 300, paid_by = ''A'',
       splits = Some [\<lparr>expense_id = ''e1'', ExpenseSplit.user_id = ''A'', share_amount = 100\<rparr>,
                      \<lparr>expense_id = ''e1'', ExpenseSplit.user_id = ''B'', share_amount = 100\<rparr>,
                      \<lparr>expense_id = ''e1'', ExpenseSplit.user_id = ''C'', share_amount = 100\<rparr>]\<rparr>]"
  have rows: "toUserBalances ''g'' (memberMapOf [] []) (processExpenses [] ?es)
   = [\<lparr>UserBalance.group_id = ''g'', from_user = ''B'', to_user = ''A'', owes = 100,
           from_user_name = None, to_user_name = None\<rparr>,
          \<lparr>UserBalance.group_id = ''g'', from_user = ''C'', to_user = ''A'', owes = 100,
           from_user_name = None, to_user_name = None\<rparr>]"
    by code_simp
  from getGroupBalances_no_validation [of "\<lambda>g. Inr ?es" "''g''" ?es "\<lambda>g. Inr []" "[]"] rows
  show ?thesis by simp
qed

theorem getGroupBalances_no_validation_counterexample:
  "getGroupBalances
     (\<lambda>g. Inr [\<lparr>Expense.group_id = ''g'', amount = 100, paid_by = ''A'',
       splits = Some [\<lparr>expense_id = ''e1'', ExpenseSplit.user_id = ''B'', share_amount = 30\<rparr>]\<rparr>])
     (\<lambda>g. Inr []) ''g''
   = Inr [\<lparr>UserBalance.group_id = ''g'', from_user = ''B'', to_user = ''A'', owes = 30,
           from_user_name = None, to_user_name = None\<rparr>]
   \<and> \<not> \<bar>sum_list (map share_amount
            [\<lparr>expense_id = ''e1'', ExpenseSplit.user_id = ''B'', share_amount = 30\<rparr>]) - 100\<bar>
         \<le> 1 / 100"
  by code_simp

section \<open>Facts about maps\<close>

lemma map_of_mapSet: "map_of (mapSet m k v) = (map_of m)(k \<mapsto> v)"
  by (induction m) (auto simp: fun_eq_iff)

lemma keys_mapSet: "fst ` set (mapSet m k v) = insert k (fst ` set m)"
  by (simp add: dom_map_of_conv_image_fst [symmetric] map_of_mapSet)

lemma entries_mapSet: "(k', v') \<in> set (mapSet m k v) \<Longrightarrow> v' = v \<or> (k', v') \<in> set m"
  by (induction m) (auto split: if_splits)

lemma mapHas_iff: "mapHas m k \<longleftrightarrow> k \<in> fst ` set m"
proof (cases "map_of m k")
  case None
  then have "k \<notin> fst ` set m" by (simp add: map_of_eq_None_iff)
  with None show ?thesis by (simp add: mapHas_def)
next
  case (Some v)
  then have "k \<in> fst ` set m" by (metis map_of_eq_None_iff option.distinct(1))
  with Some show ?thesis by (simp add: mapHas_def)
qed

lemma sum_mapSet:
  fixes h :: "string \<Rightarrow> 'v \<Rightarrow> rat"
  shows "sum_list (map (\<lambda>(k, v). h k v) (mapSet m k0 v0))
           = sum_list (map (\<lambda>(k, v). h k v) m)
             - (case map_of m k0 of None \<Rightarrow> 0 | Some v \<Rightarrow> h k0 v) + h k0 v0"
  by (induction m) auto

section \<open>The netter: rounding and members\<close>

lemma keys_initUser: "fst ` set (initUser m u n) = insert u (fst ` set m)"
  by (auto simp: initUser_def mapHas_iff keys_mapSet)

lemma keys_addAmount: "fst ` set (addAmount m u d) = fst ` set m"
proof (cases "map_of m u")
  case None
  then show ?thesis by (simp add: addAmount_def)
next
  case (Some p)
  then have "u \<in> fst ` set m" by (metis map_of_eq_None_iff option.distinct(1))
  with Some show ?thesis
    by (cases p) (auto simp: addAmount_def keys_mapSet)
qed

lemma keys_aggregate:
  "fst ` set (aggregate m r) = insert (from_user r) (insert (to_user r) (fst ` set m))"
  by (auto simp: aggregate_def Let_def keys_addAmount keys_initUser)

lemma keys_foldl_aggregate:
  "fst ` set (foldl aggregate m rows) = fst ` set m \<union> from_user ` set rows \<union> to_user ` set rows"
  by (induction rows arbitrary: m) (auto simp: keys_aggregate)

lemma user_id_toSimplified: "SimplifiedBalance.user_id (toSimplified e) = fst e"
  by (cases e) (simp add: toSimplified_def)

lemma net_amount_toSimplified: "net_amount (toSimplified e) = round2 (snd (snd e))"
  by (cases e) (simp add: toSimplified_def)

text \<open>
  Claim C8 (amended). Every net balance returned by \<open>simplifyBalances\<close> is rounded to
  two decimals, and \<open>simplifyBalances\<close> returns an entry for every member that occurs in
  a row, a zero balance included: it drops nothing. Balances of at most 0.01 in absolute
  value are dropped by \<open>calculateSimplifiedBalances\<close> (which does not round).
\<close>

theorem simplifyBalances_rounds_keeps_all:
  "(\<forall>b\<in>set (simplifyBalances userBalances). paise (net_amount b))
   \<and> SimplifiedBalance.user_id ` set (simplifyBalances userBalances)
       = from_user ` set userBalances \<union> to_user ` set userBalances
   \<and> (\<forall>b\<in>set (calculateSimplifiedBalances rawBalances members currentUserId).
         \<bar>net_amount b\<bar> > 1 / 100)"
proof (intro conjI)
  show "\<forall>b\<in>set (simplifyBalances userBalances). paise (net_amount b)"
    by (auto simp: simplifyBalances_def net_amount_toSimplified)
  have "SimplifiedBalance.user_id ` set (simplifyBalances userBalances)
          = fst ` set (foldl aggregate [] userBalances)"
    by (simp add: simplifyBalances_def image_image user_id_toSimplified)
  then show "SimplifiedBalance.user_id ` set (simplifyBalances userBalances)
       = from_user ` set userBalances \<union> to_user ` set userBalances"
    by (simp add: keys_foldl_aggregate)
  show "\<forall>b\<in>set (calculateSimplifiedBalances rawBalances members currentUserId).
         \<bar>net_amount b\<bar> > 1 / 100"
    by (simp add: calculateSimplifiedBalances_def)
qed

theorem simplifyBalances_rounds_keeps_all_witness:
  "simplifyBalances
     [\<lparr>UserBalance.group_id = ''g'', from_user = ''A'', to_user = ''B'', owes = 10,
       from_user_name = Some ''Asha'', to_user_name = Some ''Bala''\<rparr>,
      \<lparr>UserBalance.group_id = ''g'', from_user = ''C'', to_user = ''B'', owes = 501 / 200,
       from_user_name = Some ''Chitra'', to_user_name = Some ''Bala''\<rparr>]
   = [\<lparr>SimplifiedBalance.user_id = ''A'', user_name = ''Asha'', net_amount = - 10\<rparr>,
      \<lparr>SimplifiedBalance.user_id = ''B'', user_name = ''Bala'', net_amount = 1251 / 100\<rparr>,
      \<lparr>SimplifiedBalance.user_id = ''C'', user_name = ''Chitra'', net_amount = - (5 / 2)\<rparr>]
   \<and> list_all (\<lambda>b. paise (net_amount b))
     (simplifyBalances
     [\<lparr>UserBalance.group_id = ''g'', from_user = ''A'', to_user = ''B'', owes = 10,
       from_user_name = Some ''Asha'', to_user_name = Some ''Bala''\<rparr>,
      \<lparr>UserBalance.group_id = ''g'', from_user = ''C'', to_user = ''B'', owes = 501 / 200,
       from_user_name = Some ''Chitra'', to_user_name = Some ''Bala''\<rparr>])"
proof -
  let ?rows = "[\<lparr>UserBalance.group_id = ''g'', from_user = ''A'', to_user = ''B'', owes = 10,
       from_user_name = Some ''Asha'', to_user_name = Some ''Bala''\<rparr>,
      \<lparr>UserBalance.group_id = ''g'', from_user = ''C'', to_user = ''B'', owes = 501 / 200,
       from_user_name = Some ''Chitra'', to_user_name = Some ''Bala''\<rparr>]"
  have v: "simplifyBalances ?rows
   = [\<lparr>SimplifiedBalance.user_id = ''A'', user_name = ''Asha'', net_amount = - 10\<rparr>,
      \<lparr>SimplifiedBalance.user_id = ''B'', user_name = ''Bala'', net_amount = 1251 / 100\<rparr>,
      \<lparr>SimplifiedBalance.user_id = ''C'', user_name = ''Chitra'', net_amount = - (5 / 2)\<rparr>]"
    by code_simp
  from simplifyBalances_rounds_keeps_all [of ?rows]
  have "list_all (\<lambda>b. paise (net_amount b)) (simplifyBalances ?rows)"
    unfolding list_all_iff by blast
  with v show ?thesis by blast
qed

theorem simplifyBalances_keeps_zero_counterexample:
  "getGroupBalances
     (\<lambda>g. Inr [\<lparr>Expense.group_id = ''g'', amount = 10, paid_by = ''B'',
       splits = Some [\<lparr>expense_id = ''e1'', ExpenseSplit.user_id = ''A'', share_amount = 10\<rparr>]\<rparr>,
                 \<lparr>Expense.group_id = ''g'', amount = 10, paid_by = ''C'',
       splits = Some [\<lparr>expense_id = ''e2'', ExpenseSplit.user_id = ''B'', share_amount = 10\<rparr>]\<rparr>])
     (\<lambda>g. Inr []) ''g''
   = Inr [\<lparr>UserBalance.group_id = ''g'', from_user = ''A'', to_user = ''B'', owes = 10,
           from_user_name = None, to_user_name = None\<rparr>,
          \<lparr>UserBalance.group_id = ''g'', from_user = ''B'', to_user = ''C'', owes = 10,
           from_user_name = None, to_user_name = None\<rparr>]
   \<and> simplifyBalances
         [\<lparr>UserBalance.group_id = ''g'', from_user = ''A'', to_user = ''B'', owes = 10,
           from_user_name = None, to_user_name = None\<rparr>,
          \<lparr>UserBalance.group_id = ''g'', from_user = ''B'', to_user = ''C'', owes = 10,
           from_user_name = None, to_user_name = None\<rparr>]
   = [\<lparr>SimplifiedBalance.user_id = ''A'', user_name = ''Unknown User'', net_amount = - 10\<rparr>,
      \<lparr>SimplifiedBalance.user_id = ''B'', user_name = ''Unknown User'', net_amount = 0\<rparr>,
      \<lparr>SimplifiedBalance.user_id = ''C'', user_name = ''Unknown User'', net_amount = 10\<rparr>]
   \<and> \<bar>0 :: rat\<bar> < 1 / 100"
  by code_simp

section \<open>Conservation\<close>

lemma amountTotal_mapSet:
  "amountTotal (mapSet m k (n, a))
     = amountTotal m - (case map_of m k of None \<Rightarrow> 0 | Some v \<Rightarrow> snd v) + a"
  unfolding amountTotal_def using sum_mapSet [of "\<lambda>k v. snd v" m k "(n, a)"]
  by (simp add: split_def)

lemma map_of_initUser_present: "map_of (initUser m u n) u \<noteq> None"
proof (cases "mapHas m u")
  case True
  then show ?thesis
    by (auto simp: initUser_def mapHas_def split: option.splits)
next
  case False
  then show ?thesis by (simp add: initUser_def map_of_mapSet)
qed

lemma map_of_initUser_keeps: "map_of m u \<noteq> None \<Longrightarrow> map_of (initUser m v n) u \<noteq> None"
  by (simp add: initUser_def map_of_mapSet)

lemma map_of_addAmount_keeps: "map_of m u \<noteq> None \<Longrightarrow> map_of (addAmount m v d) u \<noteq> None"
  by (auto simp: addAmount_def map_of_mapSet split: option.splits)

lemma amountTotal_initUser: "amountTotal (initUser m u n) = amountTotal m"
proof (cases "mapHas m u")
  case True
  then show ?thesis by (simp add: initUser_def)
next
  case False
  then have "map_of m u = None" by (simp add: mapHas_def split: option.splits)
  with False show ?thesis by (simp add: initUser_def amountTotal_mapSet)
qed

lemma amountTotal_addAmount:
  assumes "map_of m u \<noteq> None"
  shows "amountTotal (addAmount m u d) = amountTotal m + d"
proof -
  from assms obtain n a where "map_of m u = Some (n, a)" by auto
  then show ?thesis by (simp add: addAmount_def amountTotal_mapSet)
qed

lemma amountTotal_aggregate: "amountTotal (aggregate m r) = amountTotal m"
proof -
  define m1 where "m1 = initUser m (from_user r) (from_user_name r)"
  define m2 where "m2 = initUser m1 (to_user r) (to_user_name r)"
  define m3 where "m3 = addAmount m2 (from_user r) (- owes r)"
  have agg: "aggregate m r = addAmount m3 (to_user r) (owes r)"
    by (simp add: aggregate_def Let_def m1_def m2_def m3_def)
  have f2: "map_of m2 (from_user r) \<noteq> None"
    unfolding m2_def m1_def by (intro map_of_initUser_keeps map_of_initUser_present)
  have t3: "map_of m3 (to_user r) \<noteq> None"
    unfolding m3_def m2_def by (intro map_of_addAmount_keeps map_of_initUser_present)
  have "amountTotal (aggregate m r) = amountTotal m3 + owes r"
    unfolding agg using t3 by (rule amountTotal_addAmount)
  also have "amountTotal m3 = amountTotal m2 - owes r"
    unfolding m3_def using amountTotal_addAmount [OF f2, of "- owes r"] by simp
  also have "amountTotal m2 = amountTotal m"
    by (simp add: m2_def m1_def amountTotal_initUser)
  finally show ?thesis by simp
qed

lemma amountTotal_foldl_aggregate: "amountTotal (foldl aggregate m rows) = amountTotal m"
  by (induction rows arbitrary: m) (simp_all add: amountTotal_aggregate)

lemma paise_initUser:
  assumes "\<forall>e\<in>set m. paise (snd (snd e))"
  shows "\<forall>e\<in>set (initUser m u n). paise (snd (snd e))"
proof
  fix e assume "e \<in> set (initUser m u n)"
  then consider "e \<in> set m" | "snd e = (nameOrUnknownUser n, 0)"
    using entries_mapSet [of "fst e" "snd e" m u "(nameOrUnknownUser n, 0)"]
    by (auto simp: initUser_def split: if_splits)
  then show "paise (snd (snd e))" using assms by cases auto
qed

lemma paise_addAmount:
  assumes "\<forall>e\<in>set m. paise (snd (snd e))" and "paise d"
  shows "\<forall>e\<in>set (addAmount m u d). paise (snd (snd e))"
proof (cases "map_of m u")
  case None
  with assms show ?thesis by (simp add: addAmount_def)
next
  case (Some p)
  obtain n a where p: "p = (n, a)" by (cases p)
  from Some have "(u, p) \<in> set m" by (rule map_of_SomeD)
  with assms(1) p have pa: "paise a" by fastforce
  show ?thesis
  proof
    fix e assume "e \<in> set (addAmount m u d)"
    then have "e \<in> set (mapSet m u (n, a + d))" using Some p by (simp add: addAmount_def)
    then consider "e \<in> set m" | "snd e = (n, a + d)"
      using entries_mapSet [of "fst e" "snd e" m u "(n, a + d)"] by auto
    then show "paise (snd (snd e))"
      using assms pa by cases (auto intro: paise_add)
  qed
qed

lemma paise_aggregate:
  assumes "\<forall>e\<in>set m. paise (snd (snd e))" and "paise (owes r)"
  shows "\<forall>e\<in>set (aggregate m r). paise (snd (snd e))"
  unfolding aggregate_def Let_def
  by (intro paise_addAmount paise_initUser assms paise_minus)

lemma paise_foldl_aggregate:
  assumes "\<forall>e\<in>set m. paise (snd (snd e))" and "\<forall>r\<in>set rows. paise (owes r)"
  shows "\<forall>e\<in>set (foldl aggregate m rows). paise (snd (snd e))"
  using assms
proof (induction rows arbitrary: m)
  case Nil
  then show ?case by simp
next
  case (Cons r rows)
  have "\<forall>e\<in>set (aggregate m r). paise (snd (snd e))"
    using Cons.prems by (intro paise_aggregate) simp_all
  then show ?case using Cons.IH [of "aggregate m r"] Cons.prems(2) by simp
qed

lemma simplifyBalances_conserves:
  assumes "\<forall>r\<in>set rows. paise (owes r)"
  shows "sum_list (map net_amount (simplifyBalances rows)) = 0"
proof -
  let ?m = "foldl aggregate [] rows"
  have p: "\<forall>e\<in>set ?m. paise (snd (snd e))"
    using assms by (intro paise_foldl_aggregate) simp_all
  have "map net_amount (simplifyBalances rows) = map (\<lambda>e. round2 (snd (snd e))) ?m"
    by (simp add: simplifyBalances_def net_amount_toSimplified comp_def)
  also have "\<dots> = map (\<lambda>e. snd (snd e)) ?m"
    using p by (intro map_cong refl round2_paise) blast
  finally have "sum_list (map net_amount (simplifyBalances rows)) = amountTotal ?m"
    by (simp add: amountTotal_def)
  also have "\<dots> = 0"
    by (simp add: amountTotal_foldl_aggregate) (simp add: amountTotal_def)
  finally show ?thesis .
qed

lemma paise_toUserBalances: "\<forall>r\<in>set (toUserBalances groupId memberMap balanceMap). paise (owes r)"
  by (induction groupId memberMap balanceMap rule: toUserBalances.induct)
     (auto split: prod.splits)

text \<open>
  Claim C1. Whenever \<open>getGroupBalances\<close> returns rows, the net balances that
  \<open>simplifyBalances\<close> computes from them sum to zero (exactly, the amounts being exact
  rationals): each row is rounded to whole paise by the builder, each row moves its amount
  from one member to another, and rounding a sum of whole paise changes nothing.
\<close>

theorem simplifyBalances_getGroupBalances_conserves:
  assumes "getGroupBalances getGroupExpenses getGroupMembers groupId = Inr rows"
  shows "sum_list (map net_amount (simplifyBalances rows)) = 0"
proof -
  from assms obtain expenses members where
    "rows = toUserBalances groupId (memberMapOf [] members) (processExpenses [] expenses)"
    by (auto simp: getGroupBalances_def split: sum.splits)
  then have "\<forall>r\<in>set rows. paise (owes r)" by (simp add: paise_toUserBalances)
  then show ?thesis by (rule simplifyBalances_conserves)
qed

theorem simplifyBalances_getGroupBalances_conserves_witness:
  "getGroupBalances
     (\<lambda>g. Inr [\<lparr>Expense.group_id = ''g'', amount = 100, paid_by = ''A'',
       splits = Some [\<lparr>expense_id = ''e1'', ExpenseSplit.user_id = ''A'', share_amount = 1667 / 50\<rparr>,
                      \<lparr>expense_id = ''e1'', ExpenseSplit.user_id = ''B'', share_amount = 3333 / 100\<rparr>,
                      \<lparr>expense_id = ''e1'', ExpenseSplit.user_id = ''C'', share_amount = 3333 / 100\<rparr>]\<rparr>])
     (\<lambda>g. Inr []) ''g''
   = Inr [\<lparr>UserBalance.group_id = ''g'', from_user = ''B'', to_user = ''A'', owes = 3333 / 100,
           from_user_name = None, to_user_name = None\<rparr>,
          \<lparr>UserBalance.group_id = ''g'', from_user = ''C'', to_user = ''A'', owes = 3333 / 100,
           from_user_name = None, to_user_name = None\<rparr>]
   \<and> sum_list (map net_amount (simplifyBalances
         [\<lparr>UserBalance.group_id = ''g'', from_user = ''B'', to_user = ''A'', owes = 3333 / 100,
           from_user_name = None, to_user_name = None\<rparr>,
          \<lparr>UserBalance.group_id = ''g'', from_user = ''C'', to_user = ''A'', owes = 3333 / 100,
           from_user_name = None, to_user_name = None\<rparr>])) = 0"
proof -
  let ?E = "\<lambda>g :: string. (Inr [\<lparr>Expense.group_id = ''g'', amount = 100, paid_by = ''A'',
       splits = Some [\<lparr>expense_id = ''e1'', ExpenseSplit.user_id = ''A'', share_amount = 1667 / 50\<rparr>,
                      \<lparr>expense_id = ''e1'', ExpenseSplit.user_id = ''B'', share_amount = 3333 / 100\<rparr>,
                      \<lparr>expense_id = ''e1'', ExpenseSplit.user_id = ''C'', share_amount = 3333 / 100\<rparr>]\<rparr>]
       :: error + Expense list)"
  let ?M = "\<lambda>g :: string. (Inr [] :: error + GroupMember list)"
  have rows: "getGroupBalances ?E ?M ''g''
   = Inr [\<lparr>UserBalance.group_id = ''g'', from_user = ''B'', to_user = ''A'', owes = 3333 / 100,
           from_user_name = None, to_user_name = None\<rparr>,
          \<lparr>UserBalance.group_id = ''g'', from_user = ''C'', to_user = ''A'', owes = 3333 / 100,
           from_user_name = None, to_user_name = None\<rparr>]"
    by code_simp
  from simplifyBalances_getGroupBalances_conserves [OF rows] rows show ?thesis by simp
qed

section \<open>Per-member totals\<close>

lemma signedTotal_Nil [simp]: "signedTotal [] u = 0"
  by (simp add: signedTotal_def)

lemma signedTotal_Cons:
  "signedTotal (r # rows) u
     = (if to_user r = u then owes r else 0) - (if from_user r = u then owes r else 0)
       + signedTotal rows u"
  by (simp add: signedTotal_def)

lemma signedTotal_append: "signedTotal (xs @ ys) u = signedTotal xs u + signedTotal ys u"
  by (simp add: signedTotal_def)

lemma amountOf_mapSet: "amountOf (mapSet m k (n, a)) u = (if u = k then a else amountOf m u)"
  by (simp add: amountOf_def map_of_mapSet)

lemma amountOf_initUser: "amountOf (initUser m x n) u = amountOf m u"
proof (cases "mapHas m x")
  case True
  then show ?thesis by (simp add: initUser_def)
next
  case False
  then have "map_of m x = None" by (simp add: mapHas_def split: option.splits)
  then have "amountOf m x = 0" by (simp add: amountOf_def)
  with False show ?thesis by (simp add: initUser_def amountOf_mapSet)
qed

lemma amountOf_addAmount:
  assumes "map_of m x \<noteq> None"
  shows "amountOf (addAmount m x d) u = amountOf m u + (if u = x then d else 0)"
proof -
  from assms obtain n a where s: "map_of m x = Some (n, a)" by auto
  then have "amountOf m x = a" by (simp add: amountOf_def)
  with s show ?thesis by (simp add: addAmount_def amountOf_mapSet)
qed

lemma amountOf_aggregate:
  "amountOf (aggregate m r) u
     = amountOf m u + ((if to_user r = u then owes r else 0) - (if from_user r = u then owes r else 0))"
proof -
  define m1 where "m1 = initUser m (from_user r) (from_user_name r)"
  define m2 where "m2 = initUser m1 (to_user r) (to_user_name r)"
  define m3 where "m3 = addAmount m2 (from_user r) (- owes r)"
  have agg: "aggregate m r = addAmount m3 (to_user r) (owes r)"
    by (simp add: aggregate_def Let_def m1_def m2_def m3_def)
  have f2: "map_of m2 (from_user r) \<noteq> None"
    unfolding m2_def m1_def by (intro map_of_initUser_keeps map_of_initUser_present)
  have t3: "map_of m3 (to_user r) \<noteq> None"
    unfolding m3_def m2_def by (intro map_of_addAmount_keeps map_of_initUser_present)
  have "amountOf (aggregate m r) u = amountOf m3 u + (if u = to_user r then owes r else 0)"
    unfolding agg using t3 by (rule amountOf_addAmount)
  also have "amountOf m3 u = amountOf m2 u + (if u = from_user r then - owes r else 0)"
    unfolding m3_def using f2 by (rule amountOf_addAmount)
  also have "amountOf m2 u = amountOf m u"
    by (simp add: m2_def m1_def amountOf_initUser)
  finally show ?thesis by auto
qed

lemma amountOf_foldl_aggregate:
  "amountOf (foldl aggregate m rows) u = amountOf m u + signedTotal rows u"
  by (induction rows arbitrary: m) (simp_all add: amountOf_aggregate signedTotal_Cons)

lemma round2_0 [simp]: "round2 0 = 0"
  by (simp add: round2_paise)

lemma netOf_toSimplified: "netOf (map toSimplified m) u = round2 (amountOf m u)"
proof (induction m)
  case Nil
  show ?case by (simp add: netOf_def amountOf_def)
next
  case (Cons e m)
  obtain k n a where e: "e = (k, n, a)" by (cases e)
  show ?case
  proof (cases "k = u")
    case True
    then show ?thesis by (simp add: e netOf_def amountOf_def toSimplified_def)
  next
    case False
    then have "netOf (map toSimplified (e # m)) u = netOf (map toSimplified m) u"
      by (simp add: e netOf_def toSimplified_def)
    moreover have "amountOf (e # m) u = amountOf m u"
      using False by (simp add: e amountOf_def)
    ultimately show ?thesis using Cons.IH by simp
  qed
qed

lemma netOf_simplifyBalances: "netOf (simplifyBalances rows) u = round2 (signedTotal rows u)"
  by (simp add: simplifyBalances_def netOf_toSimplified amountOf_foldl_aggregate)
     (simp add: amountOf_def)

section \<open>Keys of the pair map\<close>

lemma splitKey_mkKey:
  assumes "noColon a" and "noColon b"
  shows "splitKey (mkKey a b) = (a, b)"
proof -
  have a: "\<forall>c\<in>set a. c \<noteq> CHR '':''" and b: "\<forall>c\<in>set b. c \<noteq> CHR '':''"
    using assms by (auto simp: noColon_def)
  have "takeWhile (\<lambda>c. c \<noteq> CHR '':'') (a @ CHR '':'' # b) = a"
    using a by simp
  moreover have "dropWhile (\<lambda>c. c \<noteq> CHR '':'') (a @ CHR '':'' # b) = CHR '':'' # b"
    using a by simp
  moreover have "takeWhile (\<lambda>c. c \<noteq> CHR '':'') b = b"
    using b by simp
  ultimately show ?thesis by (simp add: splitKey_def mkKey_def)
qed

lemma mkKey_reverse_neq:
  assumes "noColon a" and "noColon b" and "a \<noteq> b"
  shows "mkKey a b \<noteq> mkKey b a"
proof
  assume "mkKey a b = mkKey b a"
  then have "splitKey (mkKey a b) = splitKey (mkKey b a)" by simp
  then show False using assms by (simp add: splitKey_mkKey)
qed

lemma coef_mkKey:
  assumes "noColon a" and "noColon b"
  shows "coef u (mkKey a b) = (if b = u then 1 else 0) - (if a = u then 1 else 0)"
  by (simp add: coef_def splitKey_mkKey [OF assms])

lemma pairTotal_mapSet:
  "pairTotal (mapSet m k v) u = pairTotal m u + coef u k * (v - getOr0 m k)"
proof -
  have s: "pairTotal (mapSet m k v) u
             = pairTotal m u - (case map_of m k of None \<Rightarrow> 0 | Some w \<Rightarrow> coef u k * w)
               + coef u k * v"
    unfolding pairTotal_def by (rule sum_mapSet)
  have "(case map_of m k of None \<Rightarrow> 0 | Some w \<Rightarrow> coef u k * w) = coef u k * getOr0 m k"
    by (simp add: getOr0_def split: option.splits)
  then show ?thesis using s by (simp add: right_diff_distrib)
qed

lemma getOr0_mapSet_other: "k' \<noteq> k \<Longrightarrow> getOr0 (mapSet m k v) k' = getOr0 m k'"
  by (simp add: getOr0_def map_of_mapSet)

lemma pairTotal_netObligation:
  assumes a: "noColon a" and b: "noColon b" and ab: "a \<noteq> b"
  shows "pairTotal (netObligation m a b n) u
           = pairTotal m u + n * ((if b = u then 1 else 0) - (if a = u then 1 else 0))"
proof -
  let ?k = "mkKey a b" and ?rk = "mkKey b a"
  have ck: "coef u ?k = (if b = u then 1 else 0) - (if a = u then 1 else 0)"
    using a b by (rule coef_mkKey)
  have crk: "coef u ?rk = - coef u ?k"
    using coef_mkKey [OF b a, of u] ck by simp
  have neq: "?k \<noteq> ?rk" using a b ab by (rule mkKey_reverse_neq)
  have "pairTotal (netObligation m a b n) u = pairTotal m u + n * coef u ?k"
    unfolding netObligation_def Let_def
    by (simp add: pairTotal_mapSet getOr0_mapSet_other [OF neq] crk algebra_simps)
  then show ?thesis by (simp add: ck)
qed

lemma pairTotal_obligations:
  assumes "\<forall>ob\<in>set obs. noColon (debtor ob) \<and> noColon (creditor ob) \<and> debtor ob \<noteq> creditor ob"
  shows "pairTotal (foldl (\<lambda>m ob. netObligation m (debtor ob) (creditor ob)
                                   (PairwiseObligation.amount ob)) m obs) u
           = pairTotal m u + signedTotal (map (obligationRow groupId) obs) u"
  using assms
proof (induction obs arbitrary: m)
  case Nil
  show ?case by simp
next
  case (Cons ob obs)
  then have ob: "noColon (debtor ob)" "noColon (creditor ob)" "debtor ob \<noteq> creditor ob"
    and rest: "\<forall>ob\<in>set obs. noColon (debtor ob) \<and> noColon (creditor ob) \<and> debtor ob \<noteq> creditor ob"
    by simp_all
  show ?case
    using Cons.IH [OF rest,
        of "netObligation m (debtor ob) (creditor ob) (PairwiseObligation.amount ob)"]
    by (simp add: pairTotal_netObligation [OF ob] signedTotal_Cons obligationRow_def)
qed

section \<open>Netting and direct accumulation\<close>

lemma paise_small_zero:
  assumes "paise v" and "0 \<le> v" and "v \<le> 1 / 100" and "v \<noteq> 1 / 100"
  shows "v = 0"
proof -
  from assms(1) obtain k :: int where k: "v = of_int k / 100" unfolding paise_iff ..
  from assms(2,3,4) have "0 \<le> k" "k \<le> 1" "k \<noteq> 1" unfolding k by simp_all
  then have "k = 0" by simp
  then show ?thesis by (simp add: k)
qed

lemma getOr0_entry: "getOr0 m k = 0 \<or> (k, getOr0 m k) \<in> set m"
  by (auto simp: getOr0_def split: option.splits dest: map_of_SomeD)

lemma entries_netObligation:
  assumes inv: "\<forall>e\<in>set m. 0 \<le> snd e \<and> paise (snd e)" and n: "0 \<le> n" "paise n"
  shows "\<forall>e\<in>set (netObligation m a b n). 0 \<le> snd e \<and> paise (snd e)"
proof -
  have g: "0 \<le> getOr0 m k \<and> paise (getOr0 m k)" for k
    using getOr0_entry [of m k] inv by fastforce
  have set1: "0 \<le> snd e \<and> paise (snd e)"
    if "e \<in> set (mapSet m' k v)" "\<forall>e\<in>set m'. 0 \<le> snd e \<and> paise (snd e)" "0 \<le> v" "paise v"
    for e m' k v
    using entries_mapSet [of "fst e" "snd e" m' k v] that by auto
  let ?k = "mkKey a b" and ?rk = "mkKey b a"
  show ?thesis
  proof
    fix e assume e: "e \<in> set (netObligation m a b n)"
    consider (absorb) "getOr0 m ?rk > 0" "getOr0 m ?rk \<ge> n"
      | (flip) "getOr0 m ?rk > 0" "getOr0 m ?rk < n"
      | (plain) "getOr0 m ?rk \<le> 0"
      by linarith
    then show "0 \<le> snd e \<and> paise (snd e)"
    proof cases
      case absorb
      then have "e \<in> set (mapSet m ?rk (getOr0 m ?rk - n))"
        using e by (simp add: netObligation_def Let_def)
      then show ?thesis
        using absorb g [of ?rk] n inv by (intro set1 [of e m ?rk "getOr0 m ?rk - n"] paise_diff) auto
    next
      case flip
      then have e': "e \<in> set (mapSet (mapSet m ?rk 0) ?k (getOr0 m ?k + (n - getOr0 m ?rk)))"
        using e by (simp add: netObligation_def Let_def)
      have inv1: "\<forall>e\<in>set (mapSet m ?rk 0). 0 \<le> snd e \<and> paise (snd e)"
        using set1 [of _ m ?rk 0] inv by simp
      show ?thesis
        using flip g [of ?rk] g [of ?k] n
        by (intro set1 [OF e' inv1] paise_add paise_diff) auto
    next
      case plain
      then have "e \<in> set (mapSet m ?k (getOr0 m ?k + n))"
        using e by (simp add: netObligation_def Let_def)
      then show ?thesis
        using g [of ?k] n inv by (intro set1 [of e m ?k "getOr0 m ?k + n"] paise_add) auto
    qed
  qed
qed

lemma entries_obligations:
  assumes "\<forall>e\<in>set m. 0 \<le> snd e \<and> paise (snd e)"
    and "\<forall>ob\<in>set obs. 0 \<le> PairwiseObligation.amount ob \<and> paise (PairwiseObligation.amount ob)"
  shows "\<forall>e\<in>set (foldl (\<lambda>m ob. netObligation m (debtor ob) (creditor ob)
                                   (PairwiseObligation.amount ob)) m obs).
           0 \<le> snd e \<and> paise (snd e)"
  using assms
proof (induction obs arbitrary: m)
  case Nil
  then show ?case by simp
next
  case (Cons ob obs)
  from Cons.prems(2) have ob: "0 \<le> PairwiseObligation.amount ob" "paise (PairwiseObligation.amount ob)"
    and rest: "\<forall>ob\<in>set obs. 0 \<le> PairwiseObligation.amount ob
                 \<and> paise (PairwiseObligation.amount ob)"
    by simp_all
  have "\<forall>e\<in>set (netObligation m (debtor ob) (creditor ob) (PairwiseObligation.amount ob)).
          0 \<le> snd e \<and> paise (snd e)"
    using Cons.prems(1) ob by (rule entries_netObligation)
  from Cons.IH [OF this rest] show ?case by simp
qed

lemma signedTotal_toUserBalances:
  "signedTotal (toUserBalances groupId memberMap m) u
     = sum_list (map (\<lambda>(k, v). coef u k * (if v > 1 / 100 then round2 v else 0)) m)"
proof (induction m)
  case Nil
  show ?case by simp
next
  case (Cons e m)
  obtain k v where e: "e = (k, v)" by (cases e)
  show ?case
  proof (cases "v > 1 / 100")
    case True
    have "signedTotal (toUserBalances groupId memberMap (e # m)) u
            = coef u k * round2 v + signedTotal (toUserBalances groupId memberMap m) u"
      using True by (simp add: e signedTotal_Cons coef_def case_prod_beta)
    then show ?thesis using True Cons.IH by (simp add: e)
  next
    case False
    then show ?thesis using Cons.IH by (simp add: e)
  qed
qed

lemma signedTotal_toUserBalances_exact:
  assumes "\<forall>e\<in>set m. 0 \<le> snd e \<and> paise (snd e) \<and> snd e \<noteq> 1 / 100"
  shows "signedTotal (toUserBalances groupId memberMap m) u = pairTotal m u"
proof -
  have "(if snd e > 1 / 100 then round2 (snd e) else 0) = snd e" if "e \<in> set m" for e
  proof (cases "snd e > 1 / 100")
    case True
    then show ?thesis using assms that by (simp add: round2_paise)
  next
    case False
    then have "snd e = 0" using assms that by (intro paise_small_zero) auto
    with False show ?thesis by simp
  qed
  then have eq: "map (\<lambda>(k, v). coef u k * (if v > 1 / 100 then round2 v else 0)) m
               = map (\<lambda>(k, v). coef u k * v) m"
    by (intro map_cong refl) (auto simp: split_def)
  have "signedTotal (toUserBalances groupId memberMap m) u
          = sum_list (map (\<lambda>(k, v). coef u k * (if v > 1 / 100 then round2 v else 0)) m)"
    by (rule signedTotal_toUserBalances)
  also have "\<dots> = sum_list (map (\<lambda>(k, v). coef u k * v) m)"
    by (simp only: eq)
  finally show ?thesis by (simp only: pairTotal_def)
qed

lemma build_parties_differ: "\<forall>ob\<in>set (build expenses). debtor ob \<noteq> creditor ob"
  by (auto simp: build_def obligationsOf_def split: option.splits)

text \<open>
  Claim C6 (amended). When no user id contains a colon, every share is a non-negative
  whole number of paise and no netted pair balance is exactly 0.01, every member has the
  same net balance (a member without entry counting as 0) after
  \<open>simplifyBalances\<close> of the rows of \<open>getGroupBalances\<close> as after \<open>simplifyBalances\<close>
  of the raw obligations taken one row each.
\<close>

theorem netting_preserves_member_balances:
  assumes "getGroupExpenses groupId = Inr expenses"
    and "getGroupBalances getGroupExpenses getGroupMembers groupId = Inr rows"
    and "\<forall>ob\<in>set (build expenses).
           noColon (debtor ob) \<and> noColon (creditor ob)
         \<and> 0 \<le> PairwiseObligation.amount ob \<and> paise (PairwiseObligation.amount ob)"
    and "\<forall>e\<in>set (processExpenses [] expenses). snd e \<noteq> 1 / 100"
  shows "netOf (simplifyBalances rows) u
           = netOf (simplifyBalances (map (obligationRow groupId) (build expenses))) u"
proof -
  let ?obs = "build expenses"
  let ?m = "processExpenses [] expenses"
  from assms(1,2) obtain members where
    rows: "rows = toUserBalances groupId (memberMapOf [] members) ?m"
    by (auto simp: getGroupBalances_def split: sum.splits)
  have m: "?m = foldl (\<lambda>m ob. netObligation m (debtor ob) (creditor ob)
                                 (PairwiseObligation.amount ob)) [] ?obs"
    by (rule processExpenses_fold_build)
  have parties: "\<forall>ob\<in>set ?obs. noColon (debtor ob) \<and> noColon (creditor ob)
                   \<and> debtor ob \<noteq> creditor ob"
    using assms(3) build_parties_differ [of expenses] by blast
  have "\<forall>e\<in>set ?m. 0 \<le> snd e \<and> paise (snd e)"
    unfolding m using assms(3) by (intro entries_obligations) simp_all
  with assms(4) have ent: "\<forall>e\<in>set ?m. 0 \<le> snd e \<and> paise (snd e) \<and> snd e \<noteq> 1 / 100"
    by blast
  have "signedTotal rows u = pairTotal ?m u"
    unfolding rows using ent by (rule signedTotal_toUserBalances_exact)
  also have "\<dots> = pairTotal [] u + signedTotal (map (obligationRow groupId) ?obs) u"
    unfolding m using parties by (rule pairTotal_obligations)
  finally have "signedTotal rows u = signedTotal (map (obligationRow groupId) ?obs) u"
    by (simp add: pairTotal_def)
  then show ?thesis by (simp add: netOf_simplifyBalances)
qed

theorem netting_preserves_member_balances_witness:
  "getGroupBalances
     (\<lambda>g. Inr [\<lparr>Expense.group_id = ''g'', amount = 300, paid_by = ''A'',
       splits = Some [\<lparr>expense_id = ''e1'', ExpenseSplit.user_id = ''A'', share_amount = 100\<rparr>,
                      \<lparr>expense_id = ''e1'', ExpenseSplit.user_id = ''B'', share_amount = 100\<rparr>,
                      \<lparr>expense_id = ''e1'', ExpenseSplit.user_id = ''C'', share_amount = 100\<rparr>]\<rparr>,
                 \<lparr>Expense.group_id = ''g'', amount = 60, paid_by = ''B'',
       splits = Some [\<lparr>expense_id = ''e2'', ExpenseSplit.user_id = ''A'', share_amount = 30\<rparr>,
                      \<lparr>expense_id = ''e2'', ExpenseSplit.user_id = ''B'', share_amount = 30\<rparr>]\<rparr>])
     (\<lambda>g. Inr []) ''g''
   = Inr [\<lparr>UserBalance.group_id = ''g'', from_user = ''B'', to_user = ''A'', owes = 70,
           from_user_name = None, to_user_name = None\<rparr>,
          \<lparr>UserBalance.group_id = ''g'', from_user = ''C'', to_user = ''A'', owes = 100,
           from_user_name = None, to_user_name = None\<rparr>]
   \<and> netOf (simplifyBalances
         [\<lparr>UserBalance.group_id = ''g'', from_user = ''B'', to_user = ''A'', owes = 70,
           from_user_name = None, to_user_name = None\<rparr>,
          \<lparr>UserBalance.group_id = ''g'', from_user = ''C'', to_user = ''A'', owes = 100,
           from_user_name = None, to_user_name = None\<rparr>]) ''B'' = - 70
   \<and> netOf (simplifyBalances (map (obligationRow ''g'') (build
         [\<lparr>Expense.group_id = ''g'', amount = 300, paid_by = ''A'',
       splits = Some [\<lparr>expense_id = ''e1'', ExpenseSplit.user_id = ''A'', share_amount = 100\<rparr>,
                      \<lparr>expense_id = ''e1'', ExpenseSplit.user_id = ''B'', share_amount = 100\<rparr>,
                      \<lparr>expense_id = ''e1'', ExpenseSplit.user_id = ''C'', share_amount = 100\<rparr>]\<rparr>,
                 \<lparr>Expense.group_id = ''g'', amount = 60, paid_by = ''B'',
       splits = Some [\<lparr>expense_id = ''e2'', ExpenseSplit.user_id = ''A'', share_amount = 30\<rparr>,
                      \<lparr>expense_id = ''e2'', ExpenseSplit.user_id = ''B'', share_amount = 30\<rparr>]\<rparr>])))
       ''B'' = - 70"
proof -
  let ?es = "[\<lparr>Expense.group_id = ''g'', amount = 300, paid_by = ''A'',
       splits = Some [\<lparr>expense_id = ''e1'', ExpenseSplit.user_id = ''A'', share_amount = 100\<rparr>,
                      \<lparr>expense_id = ''e1'', ExpenseSplit.user_id = ''B'', share_amount = 100\<rparr>,
                      \<lparr>expense_id = ''e1'', ExpenseSplit.user_id = ''C'', share_amount = 100\<rparr>]\<rparr>,
                 \<lparr>Expense.group_id = ''g'', amount = 60, paid_by = ''B'',
       splits = Some [\<lparr>expense_id = ''e2'', ExpenseSplit.user_id = ''A'', share_amount = 30\<rparr>,
                      \<lparr>expense_id = ''e2'', ExpenseSplit.user_id = ''B'', share_amount = 30\<rparr>]\<rparr>]"
  let ?E = "\<lambda>g :: string. (Inr ?es :: error + Expense list)"
  let ?M = "\<lambda>g :: string. (Inr [] :: error + GroupMember list)"
  let ?rows = "[\<lparr>UserBalance.group_id = ''g'', from_user = ''B'', to_user = ''A'', owes = 70,
           from_user_name = None, to_user_name = None\<rparr>,
          \<lparr>UserBalance.group_id = ''g'', from_user = ''C'', to_user = ''A'', owes = 100,
           from_user_name = None, to_user_name = None\<rparr>]"
  have e: "?E ''g'' = Inr ?es" by simp
  have rows: "getGroupBalances ?E ?M ''g'' = Inr ?rows" by code_simp
  have obs: "\<forall>ob\<in>set (build ?es).
           noColon (debtor ob) \<and> noColon (creditor ob)
         \<and> 0 \<le> PairwiseObligation.amount ob \<and> paise (PairwiseObligation.amount ob)"
    by code_simp
  have ent: "\<forall>e\<in>set (processExpenses [] ?es). snd e \<noteq> 1 / 100" by code_simp
  have v: "netOf (simplifyBalances ?rows) ''B'' = - 70" by code_simp
  from netting_preserves_member_balances [OF e rows obs ent, of "''B''"] v rows
  show ?thesis by simp
qed

theorem netting_threshold_counterexample:
  "getGroupBalances
     (\<lambda>g. Inr [\<lparr>Expense.group_id = ''g'', amount = 1 / 100, paid_by = ''B'',
       splits = Some [\<lparr>expense_id = ''e1'', ExpenseSplit.user_id = ''A'', share_amount = 1 / 100\<rparr>]\<rparr>,
                 \<lparr>Expense.group_id = ''g'', amount = 1 / 100, paid_by = ''C'',
       splits = Some [\<lparr>expense_id = ''e2'', ExpenseSplit.user_id = ''A'', share_amount = 1 / 100\<rparr>]\<rparr>])
     (\<lambda>g. Inr []) ''g''
   = Inr []
   \<and> netOf (simplifyBalances []) ''A'' = 0
   \<and> netOf (simplifyBalances (map (obligationRow ''g'') (build
         [\<lparr>Expense.group_id = ''g'', amount = 1 / 100, paid_by = ''B'',
       splits = Some [\<lparr>expense_id = ''e1'', ExpenseSplit.user_id = ''A'', share_amount = 1 / 100\<rparr>]\<rparr>,
                 \<lparr>Expense.group_id = ''g'', amount = 1 / 100, paid_by = ''C'',
       splits = Some [\<lparr>expense_id = ''e2'', ExpenseSplit.user_id = ''A'', share_amount = 1 / 100\<rparr>]\<rparr>])))
       ''A'' = - (1 / 50)"
  by code_simp

end
